theory Spec2Isabelle
  imports Main "HOL-Library.Word"
begin

unbundle bit_operations_syntax

section \<open>The lazy DMA mapping cache of drivers/iommu/msm_dma_iommu_mapping.c\<close>

text \<open>
  The file holds two generations of the mapping code.  The list-based one
  (\<open>msm_iommu_map_lookup\<close>, \<open>msm_iommu_map_free\<close>, \<open>msm_dma_map_sg_attrs\<close> at lines 55-91,
  \<open>msm_dma_unmap_sg\<close>, \<open>msm_dma_unmap_all_for_dev\<close>, \<open>msm_dma_buf_freed\<close>) is complete and is
  embedded first.  The kref-based one (\<open>clone_sgl\<close>, \<open>__msm_dma_map_sg\<close> and the second
  \<open>msm_dma_map_sg_attrs\<close> at lines 92-250, \<open>msm_iommu_meta_destroy\<close>, \<open>msm_iommu_meta_put\<close>,
  \<open>msm_iommu_map_release\<close>) is embedded after it with a state of its own; the functions it
  calls that the file does not define are modelled from the specification.

  Pointers are identities: a \<open>struct device *\<close>, the \<open>struct msm_iommu_data *\<close> found in
  \<open>dmabuf->priv\<close> and the address of a \<open>struct msm_iommu_map\<close> are natural numbers.
  \<open>int\<close> is a 32-bit word (read with \<open>sint\<close>), \<open>unsigned long\<close> a 64-bit word.
  Mutexes are not modelled: every function runs alone from its first lock to its last unlock;
  only the outcome of \<open>mutex_trylock\<close> in \<open>msm_dma_buf_freed\<close> is an input.
\<close>

subsection \<open>Data\<close>

type_synonym device = nat
type_synonym buffer = nat
type_synonym map_ptr = nat

datatype dma_data_direction = DMA_BIDIRECTIONAL | DMA_TO_DEVICE | DMA_FROM_DEVICE | DMA_NONE

text \<open>The two fields of \<open>struct scatterlist\<close> that the list-based code reads and writes.\<close>

record scatterlist =
  dma_address :: "64 word"
  dma_length :: "32 word"

text \<open>\<open>struct msm_iommu_map\<close>; the two \<open>list_head\<close> nodes are the memberships in the lists
  of the state below.\<close>

record msm_iommu_map =
  map_dev :: device
  map_data :: buffer
  map_sg :: scatterlist
  map_dir :: dma_data_direction
  map_nents :: "32 word"
  map_refcount :: "32 word"

text \<open>Calls that leave the file, in the order they are made.\<close>

datatype event =
    Dma_map_sg_attrs device "32 word" dma_data_direction "64 word"
  | Dma_unmap_sg device scatterlist "32 word" dma_data_direction
  | Dmb_ish
  | Warn_outstanding buffer
  | Dev_err_differs device

text \<open>
  The store: the live \<open>kmalloc\<close>ed records, \<open>data->map_list\<close> for every buffer,
  \<open>dev->iommu_map_list\<close> for every device (\<open>list_add\<close> puts the new node first), and the
  external calls made so far.
\<close>

record state =
  maps :: "map_ptr \<rightharpoonup> msm_iommu_map"
  map_list :: "buffer \<Rightarrow> map_ptr list"
  iommu_map_list :: "device \<Rightarrow> map_ptr list"
  trace :: "event list"

definition init_state :: state where
  "init_state = \<lparr>maps = Map.empty, map_list = (\<lambda>_. []), iommu_map_list = (\<lambda>_. []), trace = []\<rparr>"

text \<open>What the rest of the kernel answers during one call of \<open>msm_dma_map_sg_attrs\<close>:
  \<open>is_device_dma_coherent(dev)\<close>, the value \<open>dma_map_sg_attrs\<close> returns (0 is failure) and the
  scatterlist as it leaves it, and the address \<open>kmalloc(.., GFP_KERNEL | __GFP_NOFAIL)\<close>
  returns (never \<open>NULL\<close>).\<close>

record extern =
  coherent :: bool
  prim_ret :: "32 word"
  prim_sg :: scatterlist
  kmalloc_ptr :: map_ptr

subsection \<open>Operations\<close>

text \<open>\<open>msm_iommu_map_lookup\<close>: the first node of \<open>data->map_list\<close> whose \<open>dev\<close> is the
  device asked for.\<close>

definition msm_iommu_map_lookup :: "state \<Rightarrow> buffer \<Rightarrow> device \<Rightarrow> map_ptr option" where
  "msm_iommu_map_lookup s data dev =
     find (\<lambda>p. case maps s p of Some m \<Rightarrow> map_dev m = dev | None \<Rightarrow> False) (map_list s data)"

text \<open>\<open>msm_iommu_map_free\<close>: both \<open>list_del\<close>s, \<open>dma_unmap_sg\<close>, \<open>kfree\<close>.  A \<open>list_del\<close>
  unlinks the node from whichever list holds it.  Freeing an address that holds no record is
  undefined in C; the model leaves the state as it is.\<close>

definition msm_iommu_map_free :: "map_ptr \<Rightarrow> state \<Rightarrow> state" where
  "msm_iommu_map_free p s =
     (case maps s p of
        None \<Rightarrow> s
      | Some m \<Rightarrow>
          s\<lparr>map_list := (\<lambda>b. removeAll p (map_list s b)),
            iommu_map_list := (\<lambda>d. removeAll p (iommu_map_list s d)),
            trace := trace s @ [Dma_unmap_sg (map_dev m) (map_sg m) (map_nents m) (map_dir m)],
            maps := (maps s)(p := None)\<rparr>)"

text \<open>\<open>msm_dma_map_sg_attrs\<close> (lines 55-91).  The macro \<open>DMA_ATTR_NO_DELAYED_UNMAP\<close> is not
  defined in the sources; its value is the first argument.  \<open>not_lazy\<close> is an \<open>int\<close>
  initialised from an \<open>unsigned long\<close>, hence the \<open>ucast\<close>.  The result is the returned
  \<open>nents\<close>, the caller's scatterlist and the new state.  A pointer that the lookup returns
  holds a record, so the inner \<open>None\<close> branch is never taken.\<close>

definition msm_dma_map_sg_attrs ::
  "64 word \<Rightarrow> extern \<Rightarrow> device \<Rightarrow> scatterlist \<Rightarrow> 32 word \<Rightarrow> dma_data_direction \<Rightarrow> buffer \<Rightarrow>
   64 word \<Rightarrow> state \<Rightarrow> 32 word \<times> scatterlist \<times> state" where
  "msm_dma_map_sg_attrs no_delayed_unmap ext dev sg nents dir dmabuf attrs s =
     (let not_lazy = (ucast (attrs AND no_delayed_unmap) :: 32 word);
          data = dmabuf
      in case msm_iommu_map_lookup s data dev of
           Some p \<Rightarrow>
             (case maps s p of
                None \<Rightarrow> (nents, sg, s)
              | Some m \<Rightarrow>
                  (nents,
                   sg\<lparr>dma_address := dma_address (map_sg m), dma_length := dma_length (map_sg m)\<rparr>,
                   s\<lparr>maps := (maps s)(p \<mapsto> m\<lparr>map_refcount := map_refcount m + 1\<rparr>),
                     trace := trace s @ (if coherent ext then [Dmb_ish] else [])\<rparr>))
         | None \<Rightarrow>
             (let nents' = prim_ret ext;
                  sg' = prim_sg ext;
                  s1 = s\<lparr>trace := trace s @ [Dma_map_sg_attrs dev nents dir attrs]\<rparr>
              in if nents' \<noteq> 0 then
                   (let map = \<lparr>map_dev = dev, map_data = data,
                               map_sg = \<lparr>dma_address = dma_address sg', dma_length = dma_length sg'\<rparr>,
                               map_dir = dir, map_nents = nents', map_refcount = 2 - not_lazy\<rparr>
                    in (nents', sg',
                        s1\<lparr>maps := (maps s1)(kmalloc_ptr ext \<mapsto> map),
                           map_list := (map_list s1)(data := kmalloc_ptr ext # map_list s1 data),
                           iommu_map_list :=
                             (iommu_map_list s1)(dev := kmalloc_ptr ext # iommu_map_list s1 dev)\<rparr>))
                 else (nents', sg', s1)))"

text \<open>\<open>msm_dma_unmap_sg\<close> (lines 292-305) returns \<open>void\<close>; \<open>sg\<close>, \<open>nents\<close> and \<open>dir\<close> are
  not read.  \<open>!--map->refcount\<close> decrements first and tests the new value.\<close>

definition msm_dma_unmap_sg ::
  "device \<Rightarrow> scatterlist \<Rightarrow> 32 word \<Rightarrow> dma_data_direction \<Rightarrow> buffer \<Rightarrow> state \<Rightarrow> state" where
  "msm_dma_unmap_sg dev sg nents dir dmabuf s =
     (case msm_iommu_map_lookup s dmabuf dev of
        None \<Rightarrow> s
      | Some p \<Rightarrow>
          (case maps s p of
             None \<Rightarrow> s
           | Some m \<Rightarrow>
               (let m' = m\<lparr>map_refcount := map_refcount m - 1\<rparr>;
                    s1 = s\<lparr>maps := (maps s)(p \<mapsto> m')\<rparr>
                in if map_refcount m' = 0 then msm_iommu_map_free p s1 else s1)))"

text \<open>\<open>msm_dma_unmap_all_for_dev\<close>: \<open>list_for_each_entry_safe\<close> over \<open>dev->iommu_map_list\<close>;
  the body unlinks only the node it visits, so the walk is over the list as it stood.\<close>

definition msm_dma_unmap_all_for_dev :: "device \<Rightarrow> state \<Rightarrow> state" where
  "msm_dma_unmap_all_for_dev dev s = fold msm_iommu_map_free (iommu_map_list s dev) s"

text \<open>\<open>mutex_trylock(&dev->iommu_map_lock)\<close>: the outcomes are read off a list, one per
  attempt; once the list is used up the lock is free.\<close>

fun mutex_trylock :: "bool list \<Rightarrow> bool \<times> bool list" where
  "mutex_trylock [] = (True, [])"
| "mutex_trylock (b # bs) = (b, bs)"

text \<open>One pass of the inner loop of \<open>msm_dma_buf_freed\<close>: it stops at the first lock it cannot
  take, with \<open>retry = 1\<close>.\<close>

fun buf_freed_pass :: "bool list \<Rightarrow> map_ptr list \<Rightarrow> nat \<Rightarrow> state \<Rightarrow> bool list \<times> nat \<times> state" where
  "buf_freed_pass locks [] retry s = (locks, retry, s)"
| "buf_freed_pass locks (p # ps) retry s =
     (case mutex_trylock locks of
        (False, locks') \<Rightarrow> (locks', 1, s)
      | (True, locks') \<Rightarrow> buf_freed_pass locks' ps retry (msm_iommu_map_free p s))"

lemma buf_freed_pass_measure:
  "buf_freed_pass locks ps retry s = (locks', retry', s') \<Longrightarrow>
   length locks' + retry' \<le> length locks + retry"
proof (induction ps arbitrary: locks s)
  case Nil
  then show ?case by simp
next
  case (Cons p ps)
  show ?case
  proof (cases locks)
    case Nil
    with Cons.prems have "buf_freed_pass [] ps retry (msm_iommu_map_free p s) = (locks', retry', s')"
      by simp
    from Cons.IH [OF this] Nil show ?thesis by simp
  next
    case (Cons b bs)
    show ?thesis
    proof (cases b)
      case True
      with Cons Cons.prems
      have "buf_freed_pass bs ps retry (msm_iommu_map_free p s) = (locks', retry', s')"
        by simp
      from Cons.IH [OF this] Cons show ?thesis by simp
    next
      case False
      with Cons Cons.prems show ?thesis by auto
    qed
  qed
qed

text \<open>The \<open>do .. while (retry--)\<close> loop: \<open>retry\<close> is tested, then decremented.  It is an
  \<open>int\<close> in the source and a \<open>nat\<close> here: started from 0 it is 0 or 1 whenever it is tested
  (the last decrement, to -1, is never read).  Every pass that fails uses up one failed
  \<open>mutex_trylock\<close>, which is the measure of the termination proof.\<close>

function buf_freed_loop :: "bool list \<Rightarrow> nat \<Rightarrow> buffer \<Rightarrow> state \<Rightarrow> state" where
  "buf_freed_loop locks retry data s =
     (case buf_freed_pass locks (map_list s data) retry s of
        (locks', retry', s') \<Rightarrow>
          if retry' \<noteq> 0 then buf_freed_loop locks' (retry' - 1) data s' else s')"
  by pat_completeness auto
termination
proof (relation "measure (\<lambda>(locks, retry, data, s). length locks + retry)", goal_cases)
  case 1
  show ?case by simp
next
  case (2 locks retry data s locks' rest retry' s')
  then have "buf_freed_pass locks (map_list s data) retry s = (locks', retry', s')"
    by simp
  from buf_freed_pass_measure [OF this] 2 show ?case by simp
qed

definition msm_dma_buf_freed :: "bool list \<Rightarrow> buffer \<Rightarrow> state \<Rightarrow> state" where
  "msm_dma_buf_freed locks data s = buf_freed_loop locks 0 data s"

subsection \<open>Reading the result of a call\<close>

definition map_ret :: "32 word \<times> scatterlist \<times> state \<Rightarrow> 32 word" where
  "map_ret r = fst r"

definition map_sg_out :: "32 word \<times> scatterlist \<times> state \<Rightarrow> scatterlist" where
  "map_sg_out r = fst (snd r)"

definition map_state :: "32 word \<times> scatterlist \<times> state \<Rightarrow> state" where
  "map_state r = snd (snd r)"

text \<open>\<open>p\<close> is a record of the buffer's list that belongs to the device: what
  \<open>msm_iommu_map_lookup\<close> searches for.\<close>

definition record_for :: "state \<Rightarrow> device \<Rightarrow> buffer \<Rightarrow> map_ptr \<Rightarrow> bool" where
  "record_for s dev data p \<longleftrightarrow>
     p \<in> set (map_list s data) \<and> (case maps s p of Some m \<Rightarrow> map_dev m = dev | None \<Rightarrow> False)"

fun is_unmap :: "event \<Rightarrow> bool" where
  "is_unmap (Dma_unmap_sg d sg n dir) = True"
| "is_unmap e = False"

fun is_warning :: "event \<Rightarrow> bool" where
  "is_warning (Warn_outstanding b) = True"
| "is_warning e = False"

definition unmap_calls :: "state \<Rightarrow> nat" where
  "unmap_calls s = length (filter is_unmap (trace s))"

subsection \<open>The value handed back to the caller\<close>

text \<open>The exported functions with their C return types: \<open>int msm_dma_map_sg_attrs\<close> (line
  55), \<open>void msm_dma_unmap_sg\<close> (line 292), \<open>void msm_dma_unmap_all_for_dev\<close> (line 307) and
  \<open>void msm_dma_buf_freed\<close> (line 322).  A call yields what the caller gets back and the new
  state.\<close>

datatype c_value = Returns_void | Returns_int "32 word"

fun is_tagged_result :: "c_value \<Rightarrow> bool" where
  "is_tagged_result (Returns_int v) = True"
| "is_tagged_result Returns_void = False"

definition msm_dma_map_sg_attrs_call ::
  "64 word \<Rightarrow> extern \<Rightarrow> device \<Rightarrow> scatterlist \<Rightarrow> 32 word \<Rightarrow> dma_data_direction \<Rightarrow> buffer \<Rightarrow>
   64 word \<Rightarrow> state \<Rightarrow> c_value \<times> state" where
  "msm_dma_map_sg_attrs_call no_delayed_unmap ext dev sg nents dir dmabuf attrs s =
     (Returns_int (map_ret (msm_dma_map_sg_attrs no_delayed_unmap ext dev sg nents dir dmabuf attrs s)),
      map_state (msm_dma_map_sg_attrs no_delayed_unmap ext dev sg nents dir dmabuf attrs s))"

definition msm_dma_unmap_sg_call ::
  "device \<Rightarrow> scatterlist \<Rightarrow> 32 word \<Rightarrow> dma_data_direction \<Rightarrow> buffer \<Rightarrow> state \<Rightarrow> c_value \<times> state" where
  "msm_dma_unmap_sg_call dev sg nents dir dmabuf s =
     (Returns_void, msm_dma_unmap_sg dev sg nents dir dmabuf s)"

definition msm_dma_unmap_all_for_dev_call :: "device \<Rightarrow> state \<Rightarrow> c_value \<times> state" where
  "msm_dma_unmap_all_for_dev_call dev s = (Returns_void, msm_dma_unmap_all_for_dev dev s)"

definition msm_dma_buf_freed_call :: "bool list \<Rightarrow> buffer \<Rightarrow> state \<Rightarrow> c_value \<times> state" where
  "msm_dma_buf_freed_call locks data s = (Returns_void, msm_dma_buf_freed locks data s)"


subsection \<open>States and answers used as examples\<close>

definition ext_ok :: extern where
  "ext_ok = \<lparr>coherent = False, prim_ret = 1,
             prim_sg = \<lparr>dma_address = 4096, dma_length = 512\<rparr>, kmalloc_ptr = 7\<rparr>"

definition ext_fail :: extern where
  "ext_fail = \<lparr>coherent = False, prim_ret = 0,
               prim_sg = \<lparr>dma_address = 0, dma_length = 0\<rparr>, kmalloc_ptr = 8\<rparr>"

definition sg0 :: scatterlist where
  "sg0 = \<lparr>dma_address = 0, dma_length = 0\<rparr>"

text \<open>Device 1 has mapped buffer 2 once, without \<open>DMA_ATTR_NO_DELAYED_UNMAP\<close>.\<close>

definition s_one :: state where
  "s_one = map_state (msm_dma_map_sg_attrs 2048 ext_ok 1 sg0 1 DMA_TO_DEVICE 2 0 init_state)"

text \<open>Then device 3 has mapped buffer 2 as well.\<close>

definition s_two :: state where
  "s_two = map_state (msm_dma_map_sg_attrs 2048 (ext_ok\<lparr>kmalloc_ptr := 9\<rparr>) 3 sg0 1
                        DMA_FROM_DEVICE 2 0 s_one)"

subsection \<open>The index invariant and the reachable states\<close>

text \<open>Every list is free of repetitions; a buffer's list holds exactly the live records of
  that buffer, a device's list exactly the live records of that device.\<close>

definition index_inv :: "state \<Rightarrow> bool" where
  "index_inv s \<longleftrightarrow>
     (\<forall>b. distinct (map_list s b)) \<and>
     (\<forall>d. distinct (iommu_map_list s d)) \<and>
     (\<forall>b p. p \<in> set (map_list s b) \<longleftrightarrow> (\<exists>m. maps s p = Some m \<and> map_data m = b)) \<and>
     (\<forall>d p. p \<in> set (iommu_map_list s d) \<longleftrightarrow> (\<exists>m. maps s p = Some m \<and> map_dev m = d))"

text \<open>The \<open>dma_unmap_sg\<close> calls that releasing the records \<open>ps\<close> of state \<open>s\<close> makes.\<close>

definition unmap_events :: "state \<Rightarrow> map_ptr list \<Rightarrow> event list" where
  "unmap_events s ps =
     concat (map (\<lambda>p. case maps s p of
                         Some m \<Rightarrow> [Dma_unmap_sg (map_dev m) (map_sg m) (map_nents m) (map_dir m)]
                       | None \<Rightarrow> []) ps)"

text \<open>The states the four exported functions produce from the empty cache.  \<open>kmalloc\<close>
  returns an address that holds no live record.\<close>

inductive reachable :: "state \<Rightarrow> bool" where
  r_init: "reachable init_state"
| r_map: "reachable s \<Longrightarrow> kmalloc_ptr ext \<notin> dom (maps s) \<Longrightarrow>
          reachable (map_state (msm_dma_map_sg_attrs flag ext dev sg nents dir dmabuf attrs s))"
| r_unmap: "reachable s \<Longrightarrow> reachable (msm_dma_unmap_sg dev sg nents dir dmabuf s)"
| r_unmap_all: "reachable s \<Longrightarrow> reachable (msm_dma_unmap_all_for_dev dev s)"
| r_buf_freed: "reachable s \<Longrightarrow> reachable (msm_dma_buf_freed locks data s)"

subsection \<open>Repeated calls\<close>

text \<open>\<open>length exts\<close> calls of \<open>msm_dma_map_sg_attrs\<close> with the same arguments, one set of
  answers of the kernel per call; \<open>n\<close> calls of \<open>msm_dma_unmap_sg\<close> for the same device and
  buffer; the barriers the hits of a run of map calls issue.\<close>

definition map_n ::
  "64 word \<Rightarrow> extern list \<Rightarrow> device \<Rightarrow> scatterlist \<Rightarrow> 32 word \<Rightarrow> dma_data_direction \<Rightarrow> buffer \<Rightarrow>
   64 word \<Rightarrow> state \<Rightarrow> state" where
  "map_n flag exts dev sg nents dir dmabuf attrs s =
     fold (\<lambda>ext s. map_state (msm_dma_map_sg_attrs flag ext dev sg nents dir dmabuf attrs s)) exts s"

definition unmap_n ::
  "nat \<Rightarrow> device \<Rightarrow> scatterlist \<Rightarrow> 32 word \<Rightarrow> dma_data_direction \<Rightarrow> buffer \<Rightarrow> state \<Rightarrow> state" where
  "unmap_n n dev sg nents dir dmabuf s = (msm_dma_unmap_sg dev sg nents dir dmabuf ^^ n) s"

definition dmb_events :: "extern list \<Rightarrow> event list" where
  "dmb_events exts = concat (map (\<lambda>ext. if coherent ext then [Dmb_ish] else []) exts)"

subsection \<open>The kref-based map path (lines 92-290)\<close>

text \<open>
  \<open>__msm_dma_map_sg\<close> and the functions around it work on another layout: a metadata object
  per buffer, found in the tree \<open>iommu_root\<close>, holds a \<open>kref\<close> and the list \<open>iommu_maps\<close>;
  a map holds a \<open>kref\<close>, a clone of the scatterlist, the attributes and the physical start
  address it was made with.  Isabelle names cannot start with an underscore:
  \<open>__msm_dma_map_sg\<close> is \<open>msm_dma_map_sg_kref\<close>, and the second \<open>msm_dma_map_sg_attrs\<close>
  (lines 226-250) is \<open>msm_dma_map_sg_attrs_kref\<close>.

  \<open>sg_phys(sg)\<close> is a field of the scatterlist here.  Of a cloned list the model keeps the
  first entry, the only one read back.
\<close>

record kref_scatterlist = scatterlist +
  sg_phys :: "64 word"

record kref_map =
  k_dev :: device
  k_sgl :: kref_scatterlist
  k_nents :: "32 word"
  k_dir :: dma_data_direction
  k_ref :: "32 word"
  k_meta :: buffer
  k_map_attrs :: "64 word"
  k_buf_start_addr :: "64 word"

record msm_iommu_meta =
  meta_ref :: "32 word"
  iommu_maps :: "map_ptr list"

record kref_state =
  iommu_root :: "buffer \<rightharpoonup> msm_iommu_meta"
  kref_maps :: "map_ptr \<rightharpoonup> kref_map"
  kref_trace :: "event list"

text \<open>What the rest of the kernel answers during one call of \<open>__msm_dma_map_sg\<close>: an error
  pointer from \<open>msm_iommu_meta_create\<close> (or none), the result of \<open>kmalloc(.., GFP_KERNEL)\<close>
  (\<open>None\<close> is \<open>NULL\<close>), \<open>dma_map_sg_attrs\<close>, and whether \<open>sg_alloc_table\<close> succeeded.\<close>

record kref_extern =
  k_coherent :: bool
  k_meta_create_err :: "32 word option"
  k_kmalloc :: "map_ptr option"
  k_prim_ret :: "32 word"
  k_prim_sg :: kref_scatterlist
  k_sg_alloc_ok :: bool

text \<open>The two \<open>errno\<close> values of the file; they are returned negated.\<close>

definition ENOMEM :: "32 word" where "ENOMEM = 12"
definition EINVAL :: "32 word" where "EINVAL = 22"

text \<open>Modelled from the spec: \<open>msm_iommu_meta_lookup\<close> is called at line 120 and defined
  nowhere in the sources.  The Buffer Mapping Index is owned by the buffer's metadata object,
  which is found by the buffer's identity.\<close>

definition msm_iommu_meta_lookup :: "kref_state \<Rightarrow> buffer \<Rightarrow> msm_iommu_meta option" where
  "msm_iommu_meta_lookup s buffer = iommu_root s buffer"

text \<open>Modelled from the spec: \<open>msm_iommu_meta_create\<close> is called at line 123 and defined
  nowhere in the sources.  The index is created lazily on the first map of a buffer, empty;
  the two \<open>msm_iommu_meta_put\<close> of the error path (lines 213-215) undo one reference of the
  creation and the extra one of line 131.\<close>

definition msm_iommu_meta_create :: "buffer \<Rightarrow> kref_state \<Rightarrow> kref_state" where
  "msm_iommu_meta_create buffer s =
     s\<lparr>iommu_root := (iommu_root s)(buffer \<mapsto> \<lparr>meta_ref = 1, iommu_maps = []\<rparr>)\<rparr>"

text \<open>Modelled from the spec: \<open>msm_iommu_lookup\<close> is called at line 141 and defined nowhere in
  the sources.  It looks up the record of the device in the buffer's index.\<close>

definition msm_iommu_lookup :: "kref_state \<Rightarrow> msm_iommu_meta \<Rightarrow> device \<Rightarrow> map_ptr option" where
  "msm_iommu_lookup s meta dev =
     find (\<lambda>p. case kref_maps s p of Some m \<Rightarrow> k_dev m = dev | None \<Rightarrow> False) (iommu_maps meta)"

text \<open>Modelled from the spec: \<open>msm_iommu_add\<close> is called at line 172 and defined nowhere in
  the sources.  It inserts the new record into the buffer's index.\<close>

definition msm_iommu_add :: "buffer \<Rightarrow> map_ptr \<Rightarrow> kref_state \<Rightarrow> kref_state" where
  "msm_iommu_add buffer p s =
     (case iommu_root s buffer of
        None \<Rightarrow> s
      | Some meta \<Rightarrow> s\<lparr>iommu_root := (iommu_root s)(buffer \<mapsto> meta\<lparr>iommu_maps := p # iommu_maps meta\<rparr>)\<rparr>)"

text \<open>\<open>kref_get(&iommu_meta->ref)\<close>.\<close>

definition kref_get_meta :: "buffer \<Rightarrow> kref_state \<Rightarrow> kref_state" where
  "kref_get_meta buffer s =
     (case iommu_root s buffer of
        None \<Rightarrow> s
      | Some meta \<Rightarrow> s\<lparr>iommu_root := (iommu_root s)(buffer \<mapsto> meta\<lparr>meta_ref := meta_ref meta + 1\<rparr>)\<rparr>)"

text \<open>\<open>clone_sgl\<close> (lines 92-106): \<open>NULL\<close> when \<open>sg_alloc_table\<close> fails, a copy otherwise.\<close>

definition clone_sgl :: "bool \<Rightarrow> kref_scatterlist \<Rightarrow> 32 word \<Rightarrow> kref_scatterlist option" where
  "clone_sgl alloc_ok sg nents = (if alloc_ok then Some sg else None)"

text \<open>\<open>msm_iommu_meta_destroy\<close> (lines 253-264): one \<open>WARN\<close> when the list is not empty; the
  maps on it are left alone.\<close>

definition msm_iommu_meta_destroy :: "buffer \<Rightarrow> kref_state \<Rightarrow> kref_state" where
  "msm_iommu_meta_destroy buffer s =
     (case iommu_root s buffer of
        None \<Rightarrow> s
      | Some meta \<Rightarrow>
          s\<lparr>kref_trace := kref_trace s @ (if iommu_maps meta \<noteq> [] then [Warn_outstanding buffer] else []),
            iommu_root := (iommu_root s)(buffer := None)\<rparr>)"

text \<open>\<open>msm_iommu_meta_put\<close> (lines 266-274): \<open>kref_put\<close> with \<open>msm_iommu_meta_destroy\<close> as
  the release function.\<close>

definition msm_iommu_meta_put :: "buffer \<Rightarrow> kref_state \<Rightarrow> kref_state" where
  "msm_iommu_meta_put buffer s =
     (case iommu_root s buffer of
        None \<Rightarrow> s
      | Some meta \<Rightarrow>
          (let meta' = meta\<lparr>meta_ref := meta_ref meta - 1\<rparr>;
               s1 = s\<lparr>iommu_root := (iommu_root s)(buffer \<mapsto> meta')\<rparr>
           in if meta_ref meta' = 0 then msm_iommu_meta_destroy buffer s1 else s1))"

text \<open>\<open>msm_iommu_map_release\<close> (lines 276-290).\<close>

definition msm_iommu_map_release :: "map_ptr \<Rightarrow> kref_state \<Rightarrow> kref_state" where
  "msm_iommu_map_release p s =
     (case kref_maps s p of
        None \<Rightarrow> s
      | Some m \<Rightarrow>
          s\<lparr>iommu_root :=
              (\<lambda>b. map_option (\<lambda>meta. meta\<lparr>iommu_maps := removeAll p (iommu_maps meta)\<rparr>)
                     (iommu_root s b)),
            kref_trace := kref_trace s @
              [Dma_unmap_sg (k_dev m)
                 \<lparr>dma_address = dma_address (k_sgl m), dma_length = dma_length (k_sgl m)\<rparr>
                 (k_nents m) (k_dir m)],
            kref_maps := (kref_maps s)(p := None)\<rparr>)"

text \<open>The code after the label \<open>out:\<close> (lines 211-217), for a valid \<open>iommu_meta\<close>.\<close>

definition kref_out :: "bool \<Rightarrow> buffer \<Rightarrow> kref_state \<Rightarrow> kref_state" where
  "kref_out extra_meta_ref_taken buffer s =
     msm_iommu_meta_put buffer
       (if extra_meta_ref_taken then msm_iommu_meta_put buffer s else s)"

text \<open>\<open>__msm_dma_map_sg\<close> (lines 108-219).  The first \<open>case\<close> is lines 119-138 (find or create
  the metadata and take the references), \<open>Inl\<close> being the jump to \<open>out\<close> with an error
  pointer.  After it the metadata exists and a pointer that the lookup returns holds a map, so
  the two \<open>None\<close> branches that return 0 are never taken.\<close>

definition msm_dma_map_sg_kref ::
  "64 word \<Rightarrow> kref_extern \<Rightarrow> device \<Rightarrow> kref_scatterlist \<Rightarrow> 32 word \<Rightarrow> dma_data_direction \<Rightarrow>
   buffer \<Rightarrow> 64 word \<Rightarrow> kref_state \<Rightarrow> 32 word \<times> kref_scatterlist \<times> kref_state" where
  "msm_dma_map_sg_kref no_delayed_unmap ext dev sg nents dir dma_buf attrs s =
     (let late_unmap = (attrs AND no_delayed_unmap = 0) in
      case (case msm_iommu_meta_lookup s dma_buf of
              None \<Rightarrow>
                (case k_meta_create_err ext of
                   Some e \<Rightarrow> Inl e
                 | None \<Rightarrow>
                     (let s1 = msm_iommu_meta_create dma_buf s
                      in if late_unmap then Inr (kref_get_meta dma_buf s1, True)
                         else Inr (s1, False)))
            | Some meta \<Rightarrow> Inr (kref_get_meta dma_buf s, False)) of
        Inl e \<Rightarrow> (e, sg, s)
      | Inr (s1, extra_meta_ref_taken) \<Rightarrow>
          (case iommu_root s1 dma_buf of
             None \<Rightarrow> (0, sg, s1)
           | Some iommu_meta \<Rightarrow>
               (case msm_iommu_lookup s1 iommu_meta dev of
                  None \<Rightarrow>
                    (case k_kmalloc ext of
                       None \<Rightarrow> (- ENOMEM, sg, kref_out extra_meta_ref_taken dma_buf s1)
                     | Some p \<Rightarrow>
                         (let ret = k_prim_ret ext;
                              sg1 = k_prim_sg ext;
                              s2 = s1\<lparr>kref_trace := kref_trace s1 @ [Dma_map_sg_attrs dev nents dir attrs]\<rparr>
                          in if ret = 0 then (ret, sg1, kref_out extra_meta_ref_taken dma_buf s2)
                             else
                               (case clone_sgl (k_sg_alloc_ok ext) sg1 nents of
                                  None \<Rightarrow> (- ENOMEM, sg1, kref_out extra_meta_ref_taken dma_buf s2)
                                | Some sgl \<Rightarrow>
                                    (ret, sg1,
                                     msm_iommu_add dma_buf p
                                       (s2\<lparr>kref_maps := (kref_maps s2)(p \<mapsto>
                                            \<lparr>k_dev = dev, k_sgl = sgl, k_nents = nents, k_dir = dir,
                                             k_ref = (if late_unmap then 2 else 1),
                                             k_meta = dma_buf, k_map_attrs = attrs,
                                             k_buf_start_addr = sg_phys sg1\<rparr>)\<rparr>)))))
                | Some p \<Rightarrow>
                    (case kref_maps s1 p of
                       None \<Rightarrow> (0, sg, s1)
                     | Some iommu_map \<Rightarrow>
                         if nents = k_nents iommu_map \<and> dir = k_dir iommu_map \<and>
                            attrs = k_map_attrs iommu_map \<and>
                            sg_phys sg = k_buf_start_addr iommu_map
                         then
                           (nents,
                            sg\<lparr>dma_address := dma_address (k_sgl iommu_map),
                               dma_length := dma_length (k_sgl iommu_map)\<rparr>,
                            s1\<lparr>kref_maps := (kref_maps s1)(p \<mapsto> iommu_map\<lparr>k_ref := k_ref iommu_map + 1\<rparr>),
                               kref_trace := kref_trace s1 @ (if k_coherent ext then [Dmb_ish] else [])\<rparr>)
                         else
                           (- EINVAL, sg, s1\<lparr>kref_trace := kref_trace s1 @ [Dev_err_differs dev]\<rparr>)))))"

text \<open>The second \<open>msm_dma_map_sg_attrs\<close> (lines 226-250); \<open>None\<close> is a pointer that
  \<open>IS_ERR_OR_NULL\<close> rejects.\<close>

definition msm_dma_map_sg_attrs_kref ::
  "64 word \<Rightarrow> kref_extern \<Rightarrow> device option \<Rightarrow> kref_scatterlist option \<Rightarrow> 32 word \<Rightarrow>
   dma_data_direction \<Rightarrow> buffer option \<Rightarrow> 64 word \<Rightarrow> kref_state \<Rightarrow>
   32 word \<times> kref_scatterlist option \<times> kref_state" where
  "msm_dma_map_sg_attrs_kref no_delayed_unmap ext dev sg nents dir dma_buf attrs s =
     (case dev of
        None \<Rightarrow> (- EINVAL, sg, s)
      | Some d \<Rightarrow>
          (case sg of
             None \<Rightarrow> (- EINVAL, sg, s)
           | Some g \<Rightarrow>
               (case dma_buf of
                  None \<Rightarrow> (- EINVAL, sg, s)
                | Some b \<Rightarrow>
                    (case msm_dma_map_sg_kref no_delayed_unmap ext d g nents dir b attrs s of
                       (ret, g', s') \<Rightarrow> (ret, Some g', s')))))"



section \<open>Basic facts\<close>

lemma lookup_None_iff:
  "msm_iommu_map_lookup s data dev = None \<longleftrightarrow> (\<forall>p. \<not> record_for s dev data p)"
  by (auto simp: msm_iommu_map_lookup_def record_for_def find_None_iff)

lemma lookup_SomeD:
  "msm_iommu_map_lookup s data dev = Some p \<Longrightarrow>
   p \<in> set (map_list s data) \<and> (\<exists>m. maps s p = Some m \<and> map_dev m = dev)"
  by (auto simp: msm_iommu_map_lookup_def find_Some_iff split: option.splits)

lemma lookup_init: "msm_iommu_map_lookup init_state b d = None"
  by (simp add: msm_iommu_map_lookup_def init_state_def)

lemma map_miss_fail:
  assumes "msm_iommu_map_lookup s dmabuf dev = None" "prim_ret ext = 0"
  shows "msm_dma_map_sg_attrs flag ext dev sg nents dir dmabuf attrs s =
           (0, prim_sg ext, s\<lparr>trace := trace s @ [Dma_map_sg_attrs dev nents dir attrs]\<rparr>)"
  using assms by (simp add: msm_dma_map_sg_attrs_def Let_def)

lemma map_miss_ok:
  assumes "msm_iommu_map_lookup s dmabuf dev = None" "prim_ret ext \<noteq> 0"
  shows "msm_dma_map_sg_attrs flag ext dev sg nents dir dmabuf attrs s =
           (prim_ret ext, prim_sg ext,
            s\<lparr>trace := trace s @ [Dma_map_sg_attrs dev nents dir attrs],
              maps := (maps s)(kmalloc_ptr ext \<mapsto>
                 \<lparr>map_dev = dev, map_data = dmabuf,
                  map_sg = \<lparr>dma_address = dma_address (prim_sg ext),
                            dma_length = dma_length (prim_sg ext)\<rparr>,
                  map_dir = dir, map_nents = prim_ret ext,
                  map_refcount = 2 - ucast (attrs AND flag)\<rparr>),
              map_list := (map_list s)(dmabuf := kmalloc_ptr ext # map_list s dmabuf),
              iommu_map_list := (iommu_map_list s)(dev := kmalloc_ptr ext # iommu_map_list s dev)\<rparr>)"
  using assms by (simp add: msm_dma_map_sg_attrs_def Let_def)

lemma map_hit:
  assumes "msm_iommu_map_lookup s dmabuf dev = Some p" "maps s p = Some m"
  shows "msm_dma_map_sg_attrs flag ext dev sg nents dir dmabuf attrs s =
           (nents,
            sg\<lparr>dma_address := dma_address (map_sg m), dma_length := dma_length (map_sg m)\<rparr>,
            s\<lparr>maps := (maps s)(p \<mapsto> m\<lparr>map_refcount := map_refcount m + 1\<rparr>),
              trace := trace s @ (if coherent ext then [Dmb_ish] else [])\<rparr>)"
  using assms by (simp add: msm_dma_map_sg_attrs_def Let_def)

lemma s_one_eq:
  "s_one = \<lparr>maps = [7 \<mapsto> \<lparr>map_dev = 1, map_data = 2,
                             map_sg = \<lparr>dma_address = 4096, dma_length = 512\<rparr>,
                             map_dir = DMA_TO_DEVICE, map_nents = 1, map_refcount = 2\<rparr>],
            map_list = (\<lambda>_. [])(2 := [7]),
            iommu_map_list = (\<lambda>_. [])(1 := [7]),
            trace = [Dma_map_sg_attrs 1 1 DMA_TO_DEVICE 0]\<rparr>"
  by (simp add: s_one_def map_state_def map_miss_ok lookup_init ext_ok_def)
     (simp add: init_state_def)

lemma s_one_no_record_dev3: "\<not> record_for s_one 3 2 p"
  by (simp add: s_one_eq record_for_def)

section \<open>The miss path of \<open>msm_dma_map_sg_attrs\<close>\<close>

lemma miss_refcount:
  assumes "msm_iommu_map_lookup s dmabuf dev = None" "prim_ret ext \<noteq> 0"
  shows "map_option map_refcount
           (maps (map_state (msm_dma_map_sg_attrs flag ext dev sg nents dir dmabuf attrs s))
              (kmalloc_ptr ext))
         = Some (2 - ucast (attrs AND flag))"
  by (simp add: map_miss_ok [OF assms] map_state_def)

lemma miss_refcount_lazy:
  assumes "msm_iommu_map_lookup s dmabuf dev = None" "prim_ret ext \<noteq> 0" "attrs AND flag = 0"
  shows "map_option map_refcount
           (maps (map_state (msm_dma_map_sg_attrs flag ext dev sg nents dir dmabuf attrs s))
              (kmalloc_ptr ext))
         = Some 2"
  by (simp add: miss_refcount [OF assms(1,2)] assms(3))

text \<open>
  C1, evaluated on the code.  A first mapping of buffer 2 by device 1 with
  \<open>attrs = DMA_ATTR_NO_DELAYED_UNMAP\<close>, the mask being a bit other than bit 0 (here
  \<open>1UL << 11\<close>), and a primitive that succeeds: line 80 computes \<open>2 - not_lazy\<close> with
  \<open>not_lazy = attrs & DMA_ATTR_NO_DELAYED_UNMAP\<close>, the masked bit itself and not 0 or 1, so
  the new record starts at \<open>2 - 2048 = -2046\<close>.  The claim's value for a set flag is 1.
\<close>

theorem miss_refcount_flag_bit11:
  "map_option (\<lambda>m. sint (map_refcount m))
     (maps (map_state (msm_dma_map_sg_attrs 2048 ext_ok 1 sg0 1 DMA_TO_DEVICE 2 2048 init_state)) 7)
   = Some (- 2046)"
  by (simp add: map_miss_ok lookup_init ext_ok_def map_state_def)

text \<open>
  C6.  When no record of the buffer belongs to the device and \<open>dma_map_sg_attrs\<close> returns 0,
  \<open>msm_dma_map_sg_attrs\<close> returns that 0, and the records and both lists are what they were.
\<close>

theorem map_primitive_failure_leaves_indexes:
  assumes "\<forall>p. \<not> record_for s dev dmabuf p" and "prim_ret ext = 0"
  shows "map_ret (msm_dma_map_sg_attrs flag ext dev sg nents dir dmabuf attrs s) = 0 \<and>
         maps (map_state (msm_dma_map_sg_attrs flag ext dev sg nents dir dmabuf attrs s)) = maps s \<and>
         map_list (map_state (msm_dma_map_sg_attrs flag ext dev sg nents dir dmabuf attrs s))
           = map_list s \<and>
         iommu_map_list (map_state (msm_dma_map_sg_attrs flag ext dev sg nents dir dmabuf attrs s))
           = iommu_map_list s"
proof -
  from assms(1) have "msm_iommu_map_lookup s dmabuf dev = None"
    by (simp add: lookup_None_iff)
  from map_miss_fail [OF this assms(2)] show ?thesis
    by (simp add: map_ret_def map_state_def)
qed

theorem map_primitive_failure_leaves_indexes_witness:
  "(\<forall>p. \<not> record_for s_one 3 2 p) \<and> prim_ret ext_fail = 0 \<and>
   map_ret (msm_dma_map_sg_attrs 2048 ext_fail 3 sg0 1 DMA_FROM_DEVICE 2 0 s_one) = 0 \<and>
   maps (map_state (msm_dma_map_sg_attrs 2048 ext_fail 3 sg0 1 DMA_FROM_DEVICE 2 0 s_one))
     = maps s_one \<and>
   map_list (map_state (msm_dma_map_sg_attrs 2048 ext_fail 3 sg0 1 DMA_FROM_DEVICE 2 0 s_one))
     = map_list s_one \<and>
   iommu_map_list (map_state (msm_dma_map_sg_attrs 2048 ext_fail 3 sg0 1 DMA_FROM_DEVICE 2 0 s_one))
     = iommu_map_list s_one"
proof -
  have h1: "\<forall>p. \<not> record_for s_one 3 2 p" by (simp add: s_one_no_record_dev3)
  have h2: "prim_ret ext_fail = 0" by (simp add: ext_fail_def)
  from map_primitive_failure_leaves_indexes [OF h1 h2, of 2048 sg0 1 DMA_FROM_DEVICE 0] h1 h2
  show ?thesis by blast
qed

text \<open>
  C10.  On a miss the value returned is the one \<open>dma_map_sg_attrs\<close> returned, so the call
  fails (returns 0) exactly when the primitive did; the \<open>__GFP_NOFAIL\<close> allocation always
  yields an address, and after a successful primitive the record stands at that address and
  heads both lists.
\<close>

theorem map_miss_fails_iff_primitive_fails:
  assumes "\<forall>p. \<not> record_for s dev dmabuf p"
  shows "map_ret (msm_dma_map_sg_attrs flag ext dev sg nents dir dmabuf attrs s) = prim_ret ext \<and>
         (map_ret (msm_dma_map_sg_attrs flag ext dev sg nents dir dmabuf attrs s) = 0
            \<longleftrightarrow> prim_ret ext = 0) \<and>
         (prim_ret ext \<noteq> 0 \<longrightarrow>
            maps (map_state (msm_dma_map_sg_attrs flag ext dev sg nents dir dmabuf attrs s))
                 (kmalloc_ptr ext) \<noteq> None \<and>
            map_list (map_state (msm_dma_map_sg_attrs flag ext dev sg nents dir dmabuf attrs s)) dmabuf
              = kmalloc_ptr ext # map_list s dmabuf \<and>
            iommu_map_list (map_state (msm_dma_map_sg_attrs flag ext dev sg nents dir dmabuf attrs s)) dev
              = kmalloc_ptr ext # iommu_map_list s dev)"
proof -
  from assms have miss: "msm_iommu_map_lookup s dmabuf dev = None"
    by (simp add: lookup_None_iff)
  show ?thesis
  proof (cases "prim_ret ext = 0")
    case True
    from map_miss_fail [OF miss True] True show ?thesis
      by (simp add: map_ret_def)
  next
    case False
    from map_miss_ok [OF miss False] False show ?thesis
      by (simp add: map_ret_def map_state_def)
  qed
qed

theorem map_miss_fails_iff_primitive_fails_witness:
  "(\<forall>p. \<not> record_for s_one 3 2 p) \<and>
   map_ret (msm_dma_map_sg_attrs 2048 (ext_ok\<lparr>kmalloc_ptr := 9\<rparr>) 3 sg0 1 DMA_FROM_DEVICE 2 0 s_one) = 1 \<and>
   maps (map_state (msm_dma_map_sg_attrs 2048 (ext_ok\<lparr>kmalloc_ptr := 9\<rparr>) 3 sg0 1 DMA_FROM_DEVICE 2 0 s_one)) 9
     \<noteq> None \<and>
   map_list (map_state (msm_dma_map_sg_attrs 2048 (ext_ok\<lparr>kmalloc_ptr := 9\<rparr>) 3 sg0 1 DMA_FROM_DEVICE 2 0 s_one)) 2
     = [9, 7] \<and>
   iommu_map_list (map_state (msm_dma_map_sg_attrs 2048 (ext_ok\<lparr>kmalloc_ptr := 9\<rparr>) 3 sg0 1 DMA_FROM_DEVICE 2 0 s_one)) 3
     = [9]"
proof -
  have h1: "\<forall>p. \<not> record_for s_one 3 2 p" by (simp add: s_one_no_record_dev3)
  from map_miss_fails_iff_primitive_fails
         [OF h1, of 2048 "ext_ok\<lparr>kmalloc_ptr := 9\<rparr>" sg0 1 DMA_FROM_DEVICE 0] h1
  show ?thesis by (simp add: ext_ok_def s_one_eq)
qed

section \<open>\<open>msm_dma_unmap_sg\<close> without a record\<close>

text \<open>
  C7.  When no record of the buffer's list belongs to the device, \<open>msm_dma_unmap_sg\<close> returns
  with the whole state as it was: both lists, every record with its refcount, and the list of
  external calls, so \<open>dma_unmap_sg\<close> is not called.
\<close>

theorem unmap_without_record_is_noop:
  "(\<forall>p. \<not> record_for s dev dmabuf p) \<Longrightarrow> msm_dma_unmap_sg dev sg nents dir dmabuf s = s"
  by (simp add: msm_dma_unmap_sg_def lookup_None_iff [symmetric])

theorem unmap_without_record_is_noop_witness:
  "(\<forall>p. \<not> record_for s_one 3 2 p) \<and> msm_dma_unmap_sg 3 sg0 1 DMA_TO_DEVICE 2 s_one = s_one"
proof -
  have h1: "\<forall>p. \<not> record_for s_one 3 2 p" by (simp add: s_one_no_record_dev3)
  from unmap_without_record_is_noop [OF h1] h1 show ?thesis by blast
qed

section \<open>The index invariant\<close>

declare buf_freed_loop.simps [simp del]

lemma index_inv_init: "index_inv init_state"
  by (simp add: index_inv_def init_state_def)

lemma index_inv_trace [simp]: "index_inv (s\<lparr>trace := t\<rparr>) = index_inv s"
  by (simp add: index_inv_def)

lemma index_inv_free: "index_inv s \<Longrightarrow> index_inv (msm_iommu_map_free p s)"
  unfolding index_inv_def msm_iommu_map_free_def
  by (cases "maps s p") (auto simp: distinct_removeAll)

lemma index_inv_distinct_map_list: "index_inv s \<Longrightarrow> distinct (map_list s b)"
  by (simp add: index_inv_def)

lemma index_inv_distinct_iommu_map_list: "index_inv s \<Longrightarrow> distinct (iommu_map_list s d)"
  by (simp add: index_inv_def)

lemma index_inv_map_list_live: "index_inv s \<Longrightarrow> set (map_list s b) \<subseteq> dom (maps s)"
  by (auto simp: index_inv_def)

lemma index_inv_iommu_map_list_live: "index_inv s \<Longrightarrow> set (iommu_map_list s d) \<subseteq> dom (maps s)"
  by (auto simp: index_inv_def)

lemma index_inv_refcount:
  "index_inv s \<Longrightarrow> maps s p = Some m \<Longrightarrow>
   index_inv (s\<lparr>maps := (maps s)(p \<mapsto> m\<lparr>map_refcount := r\<rparr>)\<rparr>)"
  unfolding index_inv_def by auto

lemma index_inv_map:
  assumes "index_inv s" "kmalloc_ptr ext \<notin> dom (maps s)"
  shows "index_inv (map_state (msm_dma_map_sg_attrs flag ext dev sg nents dir dmabuf attrs s))"
proof (cases "msm_iommu_map_lookup s dmabuf dev")
  case None
  show ?thesis
  proof (cases "prim_ret ext = 0")
    case True
    from map_miss_fail [OF None True] assms(1) show ?thesis by (simp add: map_state_def)
  next
    case False
    from assms have fresh: "\<And>b. kmalloc_ptr ext \<notin> set (map_list s b)"
      "\<And>d. kmalloc_ptr ext \<notin> set (iommu_map_list s d)"
      by (auto simp: index_inv_def)
    from assms(1) fresh assms(2) show ?thesis
      unfolding map_miss_ok [OF None False] map_state_def index_inv_def
      by (auto simp: dom_def)
  qed
next
  case (Some p)
  then obtain m where m: "maps s p = Some m" by (auto dest: lookup_SomeD)
  from index_inv_refcount [OF assms(1) m] show ?thesis
    by (simp add: map_hit [OF Some m] map_state_def)
qed

lemma index_inv_unmap:
  assumes "index_inv s"
  shows "index_inv (msm_dma_unmap_sg dev sg nents dir dmabuf s)"
proof (cases "msm_iommu_map_lookup s dmabuf dev")
  case None
  with assms show ?thesis by (simp add: msm_dma_unmap_sg_def)
next
  case (Some p)
  then obtain m where m: "maps s p = Some m" by (auto dest: lookup_SomeD)
  from index_inv_refcount [OF assms m] index_inv_free show ?thesis
    by (simp add: msm_dma_unmap_sg_def Some m Let_def)
qed

lemma index_inv_fold_free: "index_inv s \<Longrightarrow> index_inv (fold msm_iommu_map_free ps s)"
  by (induction ps arbitrary: s) (simp_all add: index_inv_free)

lemma index_inv_unmap_all: "index_inv s \<Longrightarrow> index_inv (msm_dma_unmap_all_for_dev dev s)"
  by (simp add: msm_dma_unmap_all_for_dev_def index_inv_fold_free)

lemma buf_freed_pass_prefix:
  "buf_freed_pass locks ps retry s = (locks', retry', s') \<Longrightarrow>
   \<exists>pre post. ps = pre @ post \<and> s' = fold msm_iommu_map_free pre s \<and>
              (post \<noteq> [] \<longrightarrow> retry' = 1) \<and> (post = [] \<longrightarrow> retry' = retry \<or> retry' = 1)"
proof (induction ps arbitrary: locks s)
  case Nil
  then show ?case by simp
next
  case (Cons p ps)
  obtain b bs where t: "mutex_trylock locks = (b, bs)" by (cases "mutex_trylock locks")
  show ?case
  proof (cases b)
    case False
    with t Cons.prems have "s' = s" "retry' = 1" by auto
    then have "p # ps = [] @ (p # ps) \<and> s' = fold msm_iommu_map_free [] s \<and>
               (p # ps \<noteq> [] \<longrightarrow> retry' = 1) \<and> (p # ps = [] \<longrightarrow> retry' = retry \<or> retry' = 1)"
      by simp
    then show ?thesis by blast
  next
    case True
    with t Cons.prems
    have "buf_freed_pass bs ps retry (msm_iommu_map_free p s) = (locks', retry', s')" by simp
    from Cons.IH [OF this] obtain pre post where
      pp: "ps = pre @ post" "s' = fold msm_iommu_map_free pre (msm_iommu_map_free p s)"
          "post \<noteq> [] \<longrightarrow> retry' = 1" "post = [] \<longrightarrow> retry' = retry \<or> retry' = 1"
      by blast
    then have "p # ps = (p # pre) @ post \<and> s' = fold msm_iommu_map_free (p # pre) s \<and>
               (post \<noteq> [] \<longrightarrow> retry' = 1) \<and> (post = [] \<longrightarrow> retry' = retry \<or> retry' = 1)"
      by simp
    then show ?thesis by blast
  qed
qed

lemma fold_free_effect:
  assumes "distinct ps" "set ps \<subseteq> dom (maps s)"
  shows "maps (fold msm_iommu_map_free ps s) = (\<lambda>q. if q \<in> set ps then None else maps s q) \<and>
         map_list (fold msm_iommu_map_free ps s) = (\<lambda>b. filter (\<lambda>q. q \<notin> set ps) (map_list s b)) \<and>
         iommu_map_list (fold msm_iommu_map_free ps s)
           = (\<lambda>d. filter (\<lambda>q. q \<notin> set ps) (iommu_map_list s d)) \<and>
         trace (fold msm_iommu_map_free ps s) = trace s @ unmap_events s ps"
  using assms
proof (induction ps arbitrary: s)
  case Nil
  then show ?case by (simp add: unmap_events_def)
next
  case (Cons p ps)
  then obtain m where m: "maps s p = Some m" by auto
  let ?s1 = "msm_iommu_map_free p s"
  have s1: "maps ?s1 = (maps s)(p := None)"
    "map_list ?s1 = (\<lambda>b. removeAll p (map_list s b))"
    "iommu_map_list ?s1 = (\<lambda>d. removeAll p (iommu_map_list s d))"
    "trace ?s1 = trace s @ [Dma_unmap_sg (map_dev m) (map_sg m) (map_nents m) (map_dir m)]"
    by (simp_all add: msm_iommu_map_free_def m)
  from Cons.prems have d: "distinct ps" and pn: "p \<notin> set ps" and sub: "set ps \<subseteq> dom (maps ?s1)"
    by (auto simp: s1)
  note ih = Cons.IH [OF d sub]
  have ev: "unmap_events ?s1 ps = unmap_events s ps"
  proof -
    have "\<And>q. q \<in> set ps \<Longrightarrow> maps ?s1 q = maps s q" using pn by (auto simp: s1)
    then show ?thesis unfolding unmap_events_def
      by (intro arg_cong [where f = concat] map_cong) simp_all
  qed
  have "maps (fold msm_iommu_map_free (p # ps) s) = (\<lambda>q. if q \<in> set (p # ps) then None else maps s q)"
    using ih by (auto simp: s1)
  moreover have "map_list (fold msm_iommu_map_free (p # ps) s)
                   = (\<lambda>b. filter (\<lambda>q. q \<notin> set (p # ps)) (map_list s b))"
    using ih by (auto simp: s1 removeAll_filter_not_eq intro!: ext filter_cong)
  moreover have "iommu_map_list (fold msm_iommu_map_free (p # ps) s)
                   = (\<lambda>d. filter (\<lambda>q. q \<notin> set (p # ps)) (iommu_map_list s d))"
    using ih by (auto simp: s1 removeAll_filter_not_eq intro!: ext filter_cong)
  moreover have "trace (fold msm_iommu_map_free (p # ps) s) = trace s @ unmap_events s (p # ps)"
    using ih ev by (simp add: s1) (simp add: unmap_events_def m)
  ultimately show ?case by blast
qed

lemma buf_freed_loop_fold:
  "index_inv s \<Longrightarrow> buf_freed_loop locks retry data s = fold msm_iommu_map_free (map_list s data) s"
proof (induction locks retry data s rule: buf_freed_loop.induct)
  case (1 locks retry data s)
  obtain locks' retry' s' where
    pass: "buf_freed_pass locks (map_list s data) retry s = (locks', retry', s')"
    by (cases "buf_freed_pass locks (map_list s data) retry s") auto
  from buf_freed_pass_prefix [OF pass] obtain pre post where
    pp: "map_list s data = pre @ post" "s' = fold msm_iommu_map_free pre s"
        "post \<noteq> [] \<longrightarrow> retry' = 1"
    by blast
  from index_inv_distinct_map_list [OF "1.prems", of data] pp(1)
  have dall: "distinct (pre @ post)" by simp
  then have dpre: "distinct pre" by simp
  from index_inv_map_list_live [OF "1.prems", of data] pp(1)
  have sub: "set pre \<subseteq> dom (maps s)" by simp
  have inv': "index_inv s'" using "1.prems" pp(2) by (simp add: index_inv_fold_free)
  have rest: "map_list s' data = post"
    using fold_free_effect [OF dpre sub] pp(1,2) dall
    by (auto simp: filter_id_conv intro: filter_False)
  have whole: "fold msm_iommu_map_free (map_list s data) s = fold msm_iommu_map_free post s'"
    by (simp add: pp)
  show ?case
  proof (cases "retry' = 0")
    case True
    with pp(3) have "post = []" by auto
    with True pass whole show ?thesis
      by (subst buf_freed_loop.simps) simp
  next
    case False
    have "buf_freed_loop locks retry data s = buf_freed_loop locks' (retry' - 1) data s'"
      using pass False by (subst buf_freed_loop.simps) simp
    also have "\<dots> = fold msm_iommu_map_free (map_list s' data) s'"
      using "1.IH" [OF pass [symmetric] refl False inv'] by simp
    finally show ?thesis using whole rest by simp
  qed
qed

lemma index_inv_buf_freed: "index_inv s \<Longrightarrow> index_inv (msm_dma_buf_freed locks data s)"
  by (simp add: msm_dma_buf_freed_def buf_freed_loop_fold index_inv_fold_free)

lemma reachable_index_inv: "reachable s \<Longrightarrow> index_inv s"
  by (induction rule: reachable.induct)
     (simp_all add: index_inv_init index_inv_map index_inv_unmap index_inv_unmap_all
        index_inv_buf_freed)

lemma distinct_count_list: "distinct xs \<Longrightarrow> count_list xs x = (if x \<in> set xs then 1 else 0)"
  by (induction xs) auto

lemma unmap_events_length: "set ps \<subseteq> dom (maps s) \<Longrightarrow> length (unmap_events s ps) = length ps"
  by (induction ps) (auto simp: unmap_events_def)

lemma s_two_eq:
  "s_two = \<lparr>maps = [7 \<mapsto> \<lparr>map_dev = 1, map_data = 2,
                             map_sg = \<lparr>dma_address = 4096, dma_length = 512\<rparr>,
                             map_dir = DMA_TO_DEVICE, map_nents = 1, map_refcount = 2\<rparr>,
                    9 \<mapsto> \<lparr>map_dev = 3, map_data = 2,
                             map_sg = \<lparr>dma_address = 4096, dma_length = 512\<rparr>,
                             map_dir = DMA_FROM_DEVICE, map_nents = 1, map_refcount = 2\<rparr>],
            map_list = (\<lambda>_. [])(2 := [9, 7]),
            iommu_map_list = (\<lambda>_. [])(1 := [7], 3 := [9]),
            trace = [Dma_map_sg_attrs 1 1 DMA_TO_DEVICE 0, Dma_map_sg_attrs 3 1 DMA_FROM_DEVICE 0]\<rparr>"
proof -
  have miss: "msm_iommu_map_lookup s_one 2 3 = None"
    by (simp add: lookup_None_iff s_one_no_record_dev3)
  show ?thesis
    by (simp add: s_two_def map_state_def map_miss_ok [OF miss] ext_ok_def)
       (simp add: s_one_eq)
qed

lemma reachable_s_one: "reachable s_one"
  unfolding s_one_def
  by (rule r_map [OF r_init]) (simp add: init_state_def)

lemma reachable_s_two: "reachable s_two"
  unfolding s_two_def
  by (rule r_map [OF reachable_s_one]) (simp add: s_one_eq)

section \<open>Membership in the two indexes\<close>

text \<open>
  C9.  In every state that \<open>msm_dma_map_sg_attrs\<close>, \<open>msm_dma_unmap_sg\<close>,
  \<open>msm_dma_unmap_all_for_dev\<close> and \<open>msm_dma_buf_freed\<close> produce from the empty cache, a live
  record occurs exactly once in the list of its own buffer and in no other buffer's list, and
  exactly once in the list of its own device and in no other device's list; an address that
  holds no live record occurs in no list.  So every call has put a record on both lists or
  taken it off both.
\<close>

theorem reachable_membership:
  assumes "reachable s"
  shows "(\<forall>p m. maps s p = Some m \<longrightarrow>
            (\<forall>b. count_list (map_list s b) p = (if b = map_data m then 1 else 0)) \<and>
            (\<forall>d. count_list (iommu_map_list s d) p = (if d = map_dev m then 1 else 0))) \<and>
         (\<forall>p. maps s p = None \<longrightarrow>
            (\<forall>b. p \<notin> set (map_list s b)) \<and> (\<forall>d. p \<notin> set (iommu_map_list s d)))"
proof -
  from assms have inv: "index_inv s" by (rule reachable_index_inv)
  have live: "count_list (map_list s b) p = (if b = map_data m then 1 else 0) \<and>
              count_list (iommu_map_list s d) p = (if d = map_dev m then 1 else 0)"
    if "maps s p = Some m" for p m b d
  proof -
    from inv that have "p \<in> set (map_list s b) \<longleftrightarrow> b = map_data m"
      "p \<in> set (iommu_map_list s d) \<longleftrightarrow> d = map_dev m"
      by (auto simp: index_inv_def)
    with index_inv_distinct_map_list [OF inv, of b] index_inv_distinct_iommu_map_list [OF inv, of d]
    show ?thesis by (simp add: distinct_count_list)
  qed
  have dead: "p \<notin> set (map_list s b) \<and> p \<notin> set (iommu_map_list s d)"
    if "maps s p = None" for p b d
    using inv that by (auto simp: index_inv_def)
  from live dead show ?thesis by blast
qed

theorem reachable_membership_witness:
  "reachable s_two \<and>
   count_list (map_list s_two 2) 9 = 1 \<and> count_list (map_list s_two 5) 9 = 0 \<and>
   count_list (iommu_map_list s_two 3) 9 = 1 \<and> count_list (iommu_map_list s_two 1) 9 = 0 \<and>
   8 \<notin> set (map_list s_two 2) \<and> 8 \<notin> set (iommu_map_list s_two 1)"
proof -
  have m9: "maps s_two 9 = Some \<lparr>map_dev = 3, map_data = 2,
                             map_sg = \<lparr>dma_address = 4096, dma_length = 512\<rparr>,
                             map_dir = DMA_FROM_DEVICE, map_nents = 1, map_refcount = 2\<rparr>"
    and m8: "maps s_two 8 = None"
    by (simp_all add: s_two_eq)
  note inst = reachable_membership [OF reachable_s_two]
  from inst m9 have
    "count_list (map_list s_two 2) 9 = 1" "count_list (map_list s_two 5) 9 = 0"
    "count_list (iommu_map_list s_two 3) 9 = 1" "count_list (iommu_map_list s_two 1) 9 = 0"
    by fastforce+
  moreover from inst m8 have "8 \<notin> set (map_list s_two 2)" "8 \<notin> set (iommu_map_list s_two 1)"
    by blast+
  ultimately show ?thesis using reachable_s_two by blast
qed

section \<open>\<open>msm_dma_unmap_all_for_dev\<close>\<close>

text \<open>
  C4.  From any reachable state, after \<open>msm_dma_unmap_all_for_dev dev\<close> the device's list is
  empty and no buffer's list holds a record of the device.  Every record that was on the
  device's list is gone from the store and from every list, whatever its refcount was, and
  \<open>dma_unmap_sg\<close> has been called once for each of them, in list order; the other records are
  untouched.
\<close>

theorem unmap_all_for_dev_drains:
  assumes "reachable s"
  shows "iommu_map_list (msm_dma_unmap_all_for_dev dev s) dev = [] \<and>
         (\<forall>b p. \<not> record_for (msm_dma_unmap_all_for_dev dev s) dev b p) \<and>
         (\<forall>p \<in> set (iommu_map_list s dev).
            maps (msm_dma_unmap_all_for_dev dev s) p = None \<and>
            (\<forall>b. p \<notin> set (map_list (msm_dma_unmap_all_for_dev dev s) b)) \<and>
            (\<forall>d. p \<notin> set (iommu_map_list (msm_dma_unmap_all_for_dev dev s) d))) \<and>
         (\<forall>p. p \<notin> set (iommu_map_list s dev) \<longrightarrow>
            maps (msm_dma_unmap_all_for_dev dev s) p = maps s p) \<and>
         trace (msm_dma_unmap_all_for_dev dev s) = trace s @ unmap_events s (iommu_map_list s dev) \<and>
         length (unmap_events s (iommu_map_list s dev)) = length (iommu_map_list s dev)"
proof -
  let ?ps = "iommu_map_list s dev"
  let ?s' = "msm_dma_unmap_all_for_dev dev s"
  from assms have inv: "index_inv s" by (rule reachable_index_inv)
  have d: "distinct ?ps" by (rule index_inv_distinct_iommu_map_list [OF inv])
  have sub: "set ?ps \<subseteq> dom (maps s)" by (rule index_inv_iommu_map_list_live [OF inv])
  from fold_free_effect [OF d sub] have
    e1: "maps ?s' = (\<lambda>q. if q \<in> set ?ps then None else maps s q)" and
    e2: "map_list ?s' = (\<lambda>b. filter (\<lambda>q. q \<notin> set ?ps) (map_list s b))" and
    e3: "iommu_map_list ?s' = (\<lambda>d. filter (\<lambda>q. q \<notin> set ?ps) (iommu_map_list s d))" and
    e4: "trace ?s' = trace s @ unmap_events s ?ps"
    by (simp_all add: msm_dma_unmap_all_for_dev_def)
  have c1: "iommu_map_list ?s' dev = []" by (simp add: e3)
  have c2: "\<not> record_for ?s' dev b p" for b p
  proof
    assume "record_for ?s' dev b p"
    then have "p \<notin> set ?ps" and "\<exists>m. maps s p = Some m \<and> map_dev m = dev"
      by (auto simp: record_for_def e1 e2 split: option.splits if_splits)
    with inv show False by (auto simp: index_inv_def)
  qed
  have c3: "maps ?s' p = None \<and> (\<forall>b. p \<notin> set (map_list ?s' b)) \<and>
            (\<forall>d. p \<notin> set (iommu_map_list ?s' d))" if "p \<in> set ?ps" for p
    using that by (simp add: e1 e2 e3)
  have c4: "maps ?s' p = maps s p" if "p \<notin> set ?ps" for p
    using that by (simp add: e1)
  from c1 c2 c3 c4 e4 unmap_events_length [OF sub] show ?thesis by blast
qed

theorem unmap_all_for_dev_drains_witness:
  "reachable s_two \<and>
   iommu_map_list (msm_dma_unmap_all_for_dev 1 s_two) 1 = [] \<and>
   (\<forall>b p. \<not> record_for (msm_dma_unmap_all_for_dev 1 s_two) 1 b p) \<and>
   maps (msm_dma_unmap_all_for_dev 1 s_two) 7 = None \<and>
   7 \<notin> set (map_list (msm_dma_unmap_all_for_dev 1 s_two) 2) \<and>
   maps (msm_dma_unmap_all_for_dev 1 s_two) 9 = maps s_two 9 \<and>
   trace (msm_dma_unmap_all_for_dev 1 s_two)
     = trace s_two @ [Dma_unmap_sg 1 \<lparr>dma_address = 4096, dma_length = 512\<rparr> 1 DMA_TO_DEVICE]"
proof -
  note inst = unmap_all_for_dev_drains [OF reachable_s_two, of 1]
  have l: "iommu_map_list s_two 1 = [7]" by (simp add: s_two_eq)
  have ev: "unmap_events s_two [7] = [Dma_unmap_sg 1 \<lparr>dma_address = 4096, dma_length = 512\<rparr> 1 DMA_TO_DEVICE]"
    by (simp add: unmap_events_def s_two_eq)
  from inst l ev reachable_s_two show ?thesis by simp
qed

section \<open>\<open>msm_dma_buf_freed\<close>\<close>

text \<open>
  C5, as amended.  From any reachable state and for any finite run of failed
  \<open>mutex_trylock\<close>s, after \<open>msm_dma_buf_freed\<close> the buffer's list is empty and every record
  still on a device's list belongs to another buffer.  Every record that was on the buffer's
  list is gone from the store and from every list, whatever its refcount was, and
  \<open>dma_unmap_sg\<close> has been called once for each of them; the other records are untouched.
\<close>

theorem buf_freed_drains:
  assumes "reachable s"
  shows "map_list (msm_dma_buf_freed locks data s) data = [] \<and>
         (\<forall>d p. p \<in> set (iommu_map_list (msm_dma_buf_freed locks data s) d) \<longrightarrow>
            (\<exists>m. maps (msm_dma_buf_freed locks data s) p = Some m \<and> map_data m \<noteq> data)) \<and>
         (\<forall>p \<in> set (map_list s data).
            maps (msm_dma_buf_freed locks data s) p = None \<and>
            (\<forall>b. p \<notin> set (map_list (msm_dma_buf_freed locks data s) b)) \<and>
            (\<forall>d. p \<notin> set (iommu_map_list (msm_dma_buf_freed locks data s) d))) \<and>
         (\<forall>p. p \<notin> set (map_list s data) \<longrightarrow>
            maps (msm_dma_buf_freed locks data s) p = maps s p) \<and>
         trace (msm_dma_buf_freed locks data s) = trace s @ unmap_events s (map_list s data) \<and>
         length (unmap_events s (map_list s data)) = length (map_list s data)"
proof -
  let ?ps = "map_list s data"
  let ?s' = "msm_dma_buf_freed locks data s"
  from assms have inv: "index_inv s" by (rule reachable_index_inv)
  have inv': "index_inv ?s'" by (rule index_inv_buf_freed [OF inv])
  have d: "distinct ?ps" by (rule index_inv_distinct_map_list [OF inv])
  have sub: "set ?ps \<subseteq> dom (maps s)" by (rule index_inv_map_list_live [OF inv])
  have fold: "?s' = fold msm_iommu_map_free ?ps s"
    by (simp add: msm_dma_buf_freed_def buf_freed_loop_fold [OF inv])
  from fold_free_effect [OF d sub] have
    e1: "maps ?s' = (\<lambda>q. if q \<in> set ?ps then None else maps s q)" and
    e2: "map_list ?s' = (\<lambda>b. filter (\<lambda>q. q \<notin> set ?ps) (map_list s b))" and
    e3: "iommu_map_list ?s' = (\<lambda>d. filter (\<lambda>q. q \<notin> set ?ps) (iommu_map_list s d))" and
    e4: "trace ?s' = trace s @ unmap_events s ?ps"
    by (simp_all add: fold)
  have c1: "map_list ?s' data = []" by (simp add: e2)
  have c2: "\<exists>m. maps ?s' p = Some m \<and> map_data m \<noteq> data"
    if "p \<in> set (iommu_map_list ?s' d)" for d p
  proof -
    from that inv' obtain m where m: "maps ?s' p = Some m" by (auto simp: index_inv_def)
    then have "p \<notin> set ?ps" and "maps s p = Some m" by (auto simp: e1 split: if_splits)
    with inv have "map_data m \<noteq> data" by (auto simp: index_inv_def)
    with m show ?thesis by blast
  qed
  have c3: "maps ?s' p = None \<and> (\<forall>b. p \<notin> set (map_list ?s' b)) \<and>
            (\<forall>d. p \<notin> set (iommu_map_list ?s' d))" if "p \<in> set ?ps" for p
    using that by (simp add: e1 e2 e3)
  have c4: "maps ?s' p = maps s p" if "p \<notin> set ?ps" for p
    using that by (simp add: e1)
  from c1 c2 c3 c4 e4 unmap_events_length [OF sub] show ?thesis by blast
qed

lemma buf_freed_s_two:
  "msm_dma_buf_freed [False, True, False] 2 s_two =
     \<lparr>maps = Map.empty, map_list = (\<lambda>_. []), iommu_map_list = (\<lambda>_. []),
      trace = [Dma_map_sg_attrs 1 1 DMA_TO_DEVICE 0, Dma_map_sg_attrs 3 1 DMA_FROM_DEVICE 0,
               Dma_unmap_sg 3 \<lparr>dma_address = 4096, dma_length = 512\<rparr> 1 DMA_FROM_DEVICE,
               Dma_unmap_sg 1 \<lparr>dma_address = 4096, dma_length = 512\<rparr> 1 DMA_TO_DEVICE]\<rparr>"
  by (simp add: msm_dma_buf_freed_def buf_freed_loop.simps s_two_eq msm_iommu_map_free_def fun_eq_iff)

theorem buf_freed_drains_witness:
  "reachable s_two \<and>
   map_list (msm_dma_buf_freed [False, True, False] 2 s_two) 2 = [] \<and>
   maps (msm_dma_buf_freed [False, True, False] 2 s_two) 7 = None \<and>
   maps (msm_dma_buf_freed [False, True, False] 2 s_two) 9 = None \<and>
   7 \<notin> set (iommu_map_list (msm_dma_buf_freed [False, True, False] 2 s_two) 1) \<and>
   trace (msm_dma_buf_freed [False, True, False] 2 s_two)
     = trace s_two @ [Dma_unmap_sg 3 \<lparr>dma_address = 4096, dma_length = 512\<rparr> 1 DMA_FROM_DEVICE,
                      Dma_unmap_sg 1 \<lparr>dma_address = 4096, dma_length = 512\<rparr> 1 DMA_TO_DEVICE]"
proof -
  note inst = buf_freed_drains [OF reachable_s_two, of "[False, True, False]" 2]
  have l: "map_list s_two 2 = [9, 7]" by (simp add: s_two_eq)
  have ev: "unmap_events s_two [9, 7] =
              [Dma_unmap_sg 3 \<lparr>dma_address = 4096, dma_length = 512\<rparr> 1 DMA_FROM_DEVICE,
               Dma_unmap_sg 1 \<lparr>dma_address = 4096, dma_length = 512\<rparr> 1 DMA_TO_DEVICE]"
    by (simp add: unmap_events_def s_two_eq)
  from inst l ev reachable_s_two show ?thesis by simp
qed

text \<open>
  C5 as stated asks for a warning per record released.  Buffer 2 is freed while the records
  7 and 9 are live with refcount 2: both are released and the calls \<open>msm_dma_buf_freed\<close> has
  made contain no warning.
\<close>

theorem buf_freed_reports_no_warning:
  "map_option map_refcount (maps s_two 7) = Some 2 \<and>
   maps (msm_dma_buf_freed [False, True, False] 2 s_two) 7 = None \<and>
   filter is_warning (trace (msm_dma_buf_freed [False, True, False] 2 s_two)) = []"
  by (simp add: buf_freed_s_two) (simp add: s_two_eq)

section \<open>The hit path of \<open>msm_dma_map_sg_attrs\<close>\<close>

text \<open>
  C3, evaluated on the code.  Record 7 caches buffer 2 for device 1 with \<open>DMA_TO_DEVICE\<close>,
  mapped with \<open>attrs = 0\<close>.  A second call for the same pair with \<open>DMA_FROM_DEVICE\<close> and
  \<open>attrs = 2048\<close> takes lines 66-71: nothing is compared, the call returns its \<open>nents\<close> and
  the cached address range, and the refcount goes from 2 to 3.  The claim asks for a failure
  that leaves the refcount at 2.
\<close>

theorem hit_ignores_direction:
  "map_option map_dir (maps s_one 7) = Some DMA_TO_DEVICE \<and>
   map_ret (msm_dma_map_sg_attrs 2048 ext_ok 1 sg0 1 DMA_FROM_DEVICE 2 2048 s_one) = 1 \<and>
   map_sg_out (msm_dma_map_sg_attrs 2048 ext_ok 1 sg0 1 DMA_FROM_DEVICE 2 2048 s_one)
     = \<lparr>dma_address = 4096, dma_length = 512\<rparr> \<and>
   map_option map_refcount (maps s_one 7) = Some 2 \<and>
   map_option map_refcount
     (maps (map_state (msm_dma_map_sg_attrs 2048 ext_ok 1 sg0 1 DMA_FROM_DEVICE 2 2048 s_one)) 7)
     = Some 3"
proof -
  have l: "msm_iommu_map_lookup s_one 2 1 = Some 7"
    by (simp add: msm_iommu_map_lookup_def s_one_eq)
  have m: "maps s_one 7 = Some \<lparr>map_dev = 1, map_data = 2,
                             map_sg = \<lparr>dma_address = 4096, dma_length = 512\<rparr>,
                             map_dir = DMA_TO_DEVICE, map_nents = 1, map_refcount = 2\<rparr>"
    by (simp add: s_one_eq)
  show ?thesis
    unfolding map_hit [OF l m] map_ret_def map_sg_out_def map_state_def
    by (simp add: m sg0_def)
qed

section \<open>Balanced runs of map and unmap\<close>

lemma lookup_trace [simp]: "msm_iommu_map_lookup (s\<lparr>trace := t\<rparr>) data dev = msm_iommu_map_lookup s data dev"
  by (simp add: msm_iommu_map_lookup_def)

lemma lookup_refcount:
  assumes "maps s p = Some m"
  shows "msm_iommu_map_lookup (s\<lparr>maps := (maps s)(p \<mapsto> m\<lparr>map_refcount := r\<rparr>)\<rparr>) data dev
           = msm_iommu_map_lookup s data dev"
proof -
  have "(\<lambda>q. case ((maps s)(p \<mapsto> m\<lparr>map_refcount := r\<rparr>)) q of
               Some m' \<Rightarrow> map_dev m' = dev | None \<Rightarrow> False)
        = (\<lambda>q. case maps s q of Some m' \<Rightarrow> map_dev m' = dev | None \<Rightarrow> False)"
    using assms by (auto simp: fun_eq_iff)
  then show ?thesis by (simp add: msm_iommu_map_lookup_def)
qed

lemma filter_unmap_dmb [simp]: "filter is_unmap (dmb_events exts) = []"
  by (induction exts) (auto simp: dmb_events_def)

lemma map_n_hits:
  assumes "msm_iommu_map_lookup s dmabuf dev = Some k" "maps s k = Some m"
  shows "map_n flag exts dev sg nents dir dmabuf attrs s =
           s\<lparr>maps := (maps s)(k \<mapsto> m\<lparr>map_refcount := map_refcount m + of_nat (length exts)\<rparr>),
             trace := trace s @ dmb_events exts\<rparr>"
  using assms
proof (induction exts arbitrary: s m)
  case Nil
  then show ?case by (simp add: map_n_def dmb_events_def map_upd_triv)
next
  case (Cons e es)
  let ?m1 = "m\<lparr>map_refcount := map_refcount m + 1\<rparr>"
  let ?s1 = "s\<lparr>maps := (maps s)(k \<mapsto> ?m1), trace := trace s @ (if coherent e then [Dmb_ish] else [])\<rparr>"
  have step: "map_state (msm_dma_map_sg_attrs flag e dev sg nents dir dmabuf attrs s) = ?s1"
    by (simp add: map_hit [OF Cons.prems] map_state_def)
  have l1: "msm_iommu_map_lookup ?s1 dmabuf dev = Some k"
    using lookup_refcount [OF Cons.prems(2), of "map_refcount m + 1" dmabuf dev] Cons.prems(1)
    by simp
  have m1: "maps ?s1 k = Some ?m1" by simp
  have "map_n flag (e # es) dev sg nents dir dmabuf attrs s
          = map_n flag es dev sg nents dir dmabuf attrs ?s1"
    by (simp add: map_n_def step)
  also have "\<dots> = ?s1\<lparr>maps := (maps ?s1)(k \<mapsto> ?m1\<lparr>map_refcount := map_refcount ?m1 + of_nat (length es)\<rparr>),
                         trace := trace ?s1 @ dmb_events es\<rparr>"
    by (rule Cons.IH [OF l1 m1])
  also have "\<dots> = s\<lparr>maps := (maps s)(k \<mapsto> m\<lparr>map_refcount := map_refcount m + of_nat (length (e # es))\<rparr>),
                       trace := trace s @ dmb_events (e # es)\<rparr>"
    by (simp add: dmb_events_def add.assoc)
  finally show ?case .
qed

lemma unmap_step_nonzero:
  assumes "msm_iommu_map_lookup s dmabuf dev = Some k" "maps s k = Some m"
    "map_refcount m - 1 \<noteq> 0"
  shows "msm_dma_unmap_sg dev sg nents dir dmabuf s =
           s\<lparr>maps := (maps s)(k \<mapsto> m\<lparr>map_refcount := map_refcount m - 1\<rparr>)\<rparr>"
  using assms by (simp add: msm_dma_unmap_sg_def Let_def)

lemma unmap_step_zero:
  assumes "msm_iommu_map_lookup s dmabuf dev = Some k" "maps s k = Some m"
    "map_refcount m = 1"
  shows "msm_dma_unmap_sg dev sg nents dir dmabuf s =
           s\<lparr>map_list := (\<lambda>b. removeAll k (map_list s b)),
             iommu_map_list := (\<lambda>d. removeAll k (iommu_map_list s d)),
             trace := trace s @ [Dma_unmap_sg (map_dev m) (map_sg m) (map_nents m) (map_dir m)],
             maps := (maps s)(k := None)\<rparr>"
  using assms by (simp add: msm_dma_unmap_sg_def Let_def msm_iommu_map_free_def)

lemma of_nat_32_nonzero: "0 < c \<Longrightarrow> c < 2 ^ 32 \<Longrightarrow> (of_nat c :: 32 word) \<noteq> 0"
proof
  assume pos: "0 < c" and small: "c < 2 ^ 32" and z: "(of_nat c :: 32 word) = 0"
  from z have "2 ^ 32 dvd c" by (simp add: word_of_nat_eq_0_iff)
  with pos have "2 ^ 32 \<le> c" by (rule_tac dvd_imp_le) simp_all
  with small show False by simp
qed

lemma unmap_n_above_zero:
  assumes "msm_iommu_map_lookup s dmabuf dev = Some k" "maps s k = Some m"
    "map_refcount m = of_nat c" "n < c" "c < 2 ^ 32"
  shows "unmap_n n dev sg nents dir dmabuf s =
           s\<lparr>maps := (maps s)(k \<mapsto> m\<lparr>map_refcount := of_nat (c - n)\<rparr>)\<rparr>"
  using assms
proof (induction n arbitrary: s m c)
  case 0
  then have "m\<lparr>map_refcount := of_nat c\<rparr> = m" by simp
  with 0 show ?case by (simp add: unmap_n_def map_upd_triv)
next
  case (Suc n)
  let ?m1 = "m\<lparr>map_refcount := map_refcount m - 1\<rparr>"
  let ?s1 = "s\<lparr>maps := (maps s)(k \<mapsto> ?m1)\<rparr>"
  from Suc.prems have c1: "map_refcount m - 1 = of_nat (c - 1)"
    by (cases c) simp_all
  from Suc.prems have "0 < c - 1" "c - 1 < 2 ^ 32" by simp_all
  then have nz: "map_refcount m - 1 \<noteq> 0"
    unfolding c1 by (rule of_nat_32_nonzero)
  have step: "msm_dma_unmap_sg dev sg nents dir dmabuf s = ?s1"
    by (rule unmap_step_nonzero [OF Suc.prems(1,2) nz])
  have l1: "msm_iommu_map_lookup ?s1 dmabuf dev = Some k"
    using lookup_refcount [OF Suc.prems(2), of "map_refcount m - 1" dmabuf dev] Suc.prems(1)
    by simp
  have m1: "maps ?s1 k = Some ?m1" by simp
  have r1: "map_refcount ?m1 = of_nat (c - 1)" using c1 by simp
  have "unmap_n (Suc n) dev sg nents dir dmabuf s = unmap_n n dev sg nents dir dmabuf ?s1"
    by (simp add: unmap_n_def funpow_swap1 step)
  also have "\<dots> = ?s1\<lparr>maps := (maps ?s1)(k \<mapsto> ?m1\<lparr>map_refcount := of_nat (c - 1 - n)\<rparr>)\<rparr>"
    using Suc.prems by (intro Suc.IH [OF l1 m1 r1]) simp_all
  also have "\<dots> = s\<lparr>maps := (maps s)(k \<mapsto> m\<lparr>map_refcount := of_nat (c - Suc n)\<rparr>)\<rparr>"
    by simp
  finally show ?case .
qed


lemma map_n_unmap_n_state:
  fixes flag attrs :: "64 word" and dir :: dma_data_direction and nents :: "32 word"
  assumes miss: "msm_iommu_map_lookup s dmabuf dev = None"
    and ok: "prim_ret e \<noteq> 0"
    and small: "length es + 2 < 2 ^ 31"
  defines "k \<equiv> kmalloc_ptr e"
  defines "m0 \<equiv> \<lparr>map_dev = dev, map_data = dmabuf,
                  map_sg = \<lparr>dma_address = dma_address (prim_sg e),
                            dma_length = dma_length (prim_sg e)\<rparr>,
                  map_dir = dir, map_nents = prim_ret e,
                  map_refcount = 2 - ucast (attrs AND flag)\<rparr>"
  defines "sB \<equiv> s\<lparr>trace := trace s @ Dma_map_sg_attrs dev nents dir attrs # dmb_events es,
                    maps := (maps s)(k \<mapsto> m0\<lparr>map_refcount := map_refcount m0 + of_nat (length es)\<rparr>),
                    map_list := (map_list s)(dmabuf := k # map_list s dmabuf),
                    iommu_map_list := (iommu_map_list s)(dev := k # iommu_map_list s dev)\<rparr>"
  shows "map_n flag (e # es) dev sg nents dir dmabuf attrs s = sB"
    and "msm_iommu_map_lookup sB dmabuf dev = Some k"
proof -
  let ?sA = "s\<lparr>trace := trace s @ [Dma_map_sg_attrs dev nents dir attrs],
               maps := (maps s)(k \<mapsto> m0),
               map_list := (map_list s)(dmabuf := k # map_list s dmabuf),
               iommu_map_list := (iommu_map_list s)(dev := k # iommu_map_list s dev)\<rparr>"
  have first: "map_state (msm_dma_map_sg_attrs flag e dev sg nents dir dmabuf attrs s) = ?sA"
    by (simp add: map_miss_ok [OF miss ok] map_state_def k_def m0_def)
  have lA: "msm_iommu_map_lookup ?sA dmabuf dev = Some k"
    by (simp add: msm_iommu_map_lookup_def m0_def)
  have mA: "maps ?sA k = Some m0" by simp
  have "map_n flag (e # es) dev sg nents dir dmabuf attrs s
          = map_n flag es dev sg nents dir dmabuf attrs ?sA"
    by (simp add: map_n_def first)
  also have "\<dots> = ?sA\<lparr>maps := (maps ?sA)(k \<mapsto> m0\<lparr>map_refcount := map_refcount m0 + of_nat (length es)\<rparr>),
                        trace := trace ?sA @ dmb_events es\<rparr>"
    by (rule map_n_hits [OF lA mA])
  also have "\<dots> = sB" by (simp add: sB_def)
  finally show "map_n flag (e # es) dev sg nents dir dmabuf attrs s = sB" .
  show "msm_iommu_map_lookup sB dmabuf dev = Some k"
    by (simp add: msm_iommu_map_lookup_def sB_def m0_def)
qed

text \<open>
  C2, as amended.  Start without a record for the pair, let the primitive succeed on the first
  of \<open>N \<ge> 1\<close> map calls, and let \<open>N + 1\<close> stay below \<open>2 ^ 31\<close> so that the \<open>int\<close> refcount
  does not overflow; then make \<open>N\<close> unmap calls.  If \<open>attrs & DMA_ATTR_NO_DELAYED_UNMAP\<close> is 0
  (a lazy mapping) the record is still on both lists with refcount 1 and \<open>dma_unmap_sg\<close> has
  not been called.  If \<open>not_lazy\<close> is 1 the record is gone from the store and from every list,
  no record for the pair is left, and \<open>dma_unmap_sg\<close> has been called exactly once.
\<close>

theorem map_n_unmap_n_balance:
  assumes "exts \<noteq> []"
    and "\<forall>p. \<not> record_for s dev dmabuf p"
    and "prim_ret (hd exts) \<noteq> 0"
    and "length exts + 1 < 2 ^ 31"
  shows "(ucast (attrs AND flag) = (0 :: 32 word) \<longrightarrow>
            record_for (unmap_n (length exts) dev usg unents udir dmabuf
                          (map_n flag exts dev sg nents dir dmabuf attrs s))
                       dev dmabuf (kmalloc_ptr (hd exts)) \<and>
            kmalloc_ptr (hd exts) \<in> set (iommu_map_list
               (unmap_n (length exts) dev usg unents udir dmabuf
                  (map_n flag exts dev sg nents dir dmabuf attrs s)) dev) \<and>
            map_option map_refcount
               (maps (unmap_n (length exts) dev usg unents udir dmabuf
                        (map_n flag exts dev sg nents dir dmabuf attrs s)) (kmalloc_ptr (hd exts)))
              = Some 1 \<and>
            unmap_calls (unmap_n (length exts) dev usg unents udir dmabuf
                           (map_n flag exts dev sg nents dir dmabuf attrs s)) = unmap_calls s) \<and>
         (ucast (attrs AND flag) = (1 :: 32 word) \<longrightarrow>
            maps (unmap_n (length exts) dev usg unents udir dmabuf
                    (map_n flag exts dev sg nents dir dmabuf attrs s)) (kmalloc_ptr (hd exts)) = None \<and>
            (\<forall>b. kmalloc_ptr (hd exts) \<notin> set (map_list
               (unmap_n (length exts) dev usg unents udir dmabuf
                  (map_n flag exts dev sg nents dir dmabuf attrs s)) b)) \<and>
            (\<forall>d. kmalloc_ptr (hd exts) \<notin> set (iommu_map_list
               (unmap_n (length exts) dev usg unents udir dmabuf
                  (map_n flag exts dev sg nents dir dmabuf attrs s)) d)) \<and>
            (\<forall>p. \<not> record_for (unmap_n (length exts) dev usg unents udir dmabuf
                                 (map_n flag exts dev sg nents dir dmabuf attrs s)) dev dmabuf p) \<and>
            unmap_calls (unmap_n (length exts) dev usg unents udir dmabuf
                           (map_n flag exts dev sg nents dir dmabuf attrs s)) = unmap_calls s + 1)"
proof -
  from assms(1) obtain e es where exts: "exts = e # es" by (cases exts) auto
  define k where "k = kmalloc_ptr e"
  define m0 where "m0 = \<lparr>map_dev = dev, map_data = dmabuf,
                  map_sg = \<lparr>dma_address = dma_address (prim_sg e),
                            dma_length = dma_length (prim_sg e)\<rparr>,
                  map_dir = dir, map_nents = prim_ret e,
                  map_refcount = 2 - ucast (attrs AND flag)\<rparr>"
  define mB where "mB = m0\<lparr>map_refcount := map_refcount m0 + of_nat (length es)\<rparr>"
  define sB where "sB = s\<lparr>trace := trace s @ Dma_map_sg_attrs dev nents dir attrs # dmb_events es,
                    maps := (maps s)(k \<mapsto> mB),
                    map_list := (map_list s)(dmabuf := k # map_list s dmabuf),
                    iommu_map_list := (iommu_map_list s)(dev := k # iommu_map_list s dev)\<rparr>"
  define s2 where "s2 = unmap_n (length exts) dev usg unents udir dmabuf
                          (map_n flag exts dev sg nents dir dmabuf attrs s)"
  from assms(2) have miss: "msm_iommu_map_lookup s dmabuf dev = None"
    by (simp add: lookup_None_iff)
  from assms(3) exts have ok: "prim_ret e \<noteq> 0" by simp
  from assms(4) exts have small: "length es + 2 < 2 ^ 31" by simp
  from map_n_unmap_n_state(1) [OF miss ok small, where flag = flag and sg = sg and nents = nents
                              and dir = dir and attrs = attrs]
  have mapped: "map_n flag exts dev sg nents dir dmabuf attrs s = sB"
    by (simp add: exts sB_def mB_def m0_def k_def)
  from map_n_unmap_n_state(2) [OF miss ok small, where flag = flag and nents = nents
                              and dir = dir and attrs = attrs]
  have lB: "msm_iommu_map_lookup sB dmabuf dev = Some k"
    by (simp add: exts sB_def mB_def m0_def k_def)
  have mBk: "maps sB k = Some mB" by (simp add: sB_def)
  have s2: "s2 = unmap_n (Suc (length es)) dev usg unents udir dmabuf sB"
    unfolding s2_def mapped by (simp add: exts)
  have lazy: "record_for s2 dev dmabuf k \<and> k \<in> set (iommu_map_list s2 dev) \<and>
              map_option map_refcount (maps s2 k) = Some 1 \<and> unmap_calls s2 = unmap_calls s"
    if nl: "ucast (attrs AND flag) = (0 :: 32 word)"
  proof -
    have r: "map_refcount mB = of_nat (length es + 2)"
      by (simp add: mB_def m0_def nl)
    from small have "length es + 2 < (2::nat) ^ 32" by simp
    from unmap_n_above_zero [OF lB mBk r _ this, of "Suc (length es)" usg unents udir]
    have "s2 = sB\<lparr>maps := (maps sB)(k \<mapsto> mB\<lparr>map_refcount := 1\<rparr>)\<rparr>"
      by (simp add: s2)
    then show ?thesis
      by (simp add: sB_def record_for_def mB_def m0_def unmap_calls_def)
  qed
  have eager: "maps s2 k = None \<and> (\<forall>b. k \<notin> set (map_list s2 b)) \<and>
               (\<forall>d. k \<notin> set (iommu_map_list s2 d)) \<and> (\<forall>p. \<not> record_for s2 dev dmabuf p) \<and>
               unmap_calls s2 = unmap_calls s + 1"
    if nl: "ucast (attrs AND flag) = (1 :: 32 word)"
  proof -
    have r: "map_refcount mB = of_nat (Suc (length es))"
      by (simp add: mB_def m0_def nl)
    from small have "Suc (length es) < (2::nat) ^ 32" by simp
    from unmap_n_above_zero [OF lB mBk r _ this, of "length es" usg unents udir]
    have sC: "unmap_n (length es) dev usg unents udir dmabuf sB
                = sB\<lparr>maps := (maps sB)(k \<mapsto> mB\<lparr>map_refcount := 1\<rparr>)\<rparr>"
      (is "_ = ?sC")
      by simp
    have lC: "msm_iommu_map_lookup ?sC dmabuf dev = Some k"
      using lookup_refcount [OF mBk, of 1 dmabuf dev] lB by simp
    have "s2 = msm_dma_unmap_sg dev usg unents udir dmabuf ?sC"
      by (simp add: s2 unmap_n_def sC [unfolded unmap_n_def])
    also have "\<dots> = ?sC\<lparr>map_list := (\<lambda>b. removeAll k (map_list ?sC b)),
                         iommu_map_list := (\<lambda>d. removeAll k (iommu_map_list ?sC d)),
                         trace := trace ?sC @ [Dma_unmap_sg (map_dev mB) (map_sg mB) (map_nents mB) (map_dir mB)],
                         maps := (maps ?sC)(k := None)\<rparr>"
      using unmap_step_zero [OF lC, where m = "mB\<lparr>map_refcount := 1\<rparr>" and sg = usg
                               and nents = unents and dir = udir]
      by simp
    finally have e: "s2 = ?sC\<lparr>map_list := (\<lambda>b. removeAll k (map_list ?sC b)),
                         iommu_map_list := (\<lambda>d. removeAll k (iommu_map_list ?sC d)),
                         trace := trace ?sC @ [Dma_unmap_sg (map_dev mB) (map_sg mB) (map_nents mB) (map_dir mB)],
                         maps := (maps ?sC)(k := None)\<rparr>" .
    have a: "maps s2 k = None" "\<And>b. k \<notin> set (map_list s2 b)" "\<And>d. k \<notin> set (iommu_map_list s2 d)"
      by (simp_all add: e)
    have b: "unmap_calls s2 = unmap_calls s + 1"
      by (simp add: e sB_def unmap_calls_def)
    have c: "\<not> record_for s2 dev dmabuf p" for p
    proof
      assume rf: "record_for s2 dev dmabuf p"
      then have "p \<noteq> k" using a by (auto simp: record_for_def)
      with rf have "record_for s dev dmabuf p"
        by (auto simp: record_for_def e sB_def split: if_splits)
      with assms(2) show False by blast
    qed
    from a b c show ?thesis by blast
  qed
  from lazy eager show ?thesis
    unfolding s2_def exts k_def by simp
qed


theorem map_n_unmap_n_balance_witness:
  "[ext_ok, ext_ok\<lparr>coherent := True\<rparr>] \<noteq> [] \<and>
   (\<forall>p. \<not> record_for init_state 1 2 p) \<and>
   prim_ret (hd [ext_ok, ext_ok\<lparr>coherent := True\<rparr>]) \<noteq> 0 \<and>
   length [ext_ok, ext_ok\<lparr>coherent := True\<rparr>] + 1 < (2::nat) ^ 31 \<and>
   (ucast ((0 :: 64 word) AND 2048) = (0 :: 32 word)) \<and>
   record_for (unmap_n 2 1 sg0 1 DMA_TO_DEVICE 2
                 (map_n 2048 [ext_ok, ext_ok\<lparr>coherent := True\<rparr>] 1 sg0 1 DMA_TO_DEVICE 2 0 init_state))
              1 2 7 \<and>
   map_option map_refcount
     (maps (unmap_n 2 1 sg0 1 DMA_TO_DEVICE 2
              (map_n 2048 [ext_ok, ext_ok\<lparr>coherent := True\<rparr>] 1 sg0 1 DMA_TO_DEVICE 2 0 init_state)) 7)
     = Some 1 \<and>
   unmap_calls (unmap_n 2 1 sg0 1 DMA_TO_DEVICE 2
                  (map_n 2048 [ext_ok, ext_ok\<lparr>coherent := True\<rparr>] 1 sg0 1 DMA_TO_DEVICE 2 0 init_state))
     = 0 \<and>
   (ucast ((1 :: 64 word) AND 1) = (1 :: 32 word)) \<and>
   maps (unmap_n 2 1 sg0 1 DMA_TO_DEVICE 2
           (map_n 1 [ext_ok, ext_ok\<lparr>coherent := True\<rparr>] 1 sg0 1 DMA_TO_DEVICE 2 1 init_state)) 7
     = None \<and>
   (\<forall>p. \<not> record_for (unmap_n 2 1 sg0 1 DMA_TO_DEVICE 2
           (map_n 1 [ext_ok, ext_ok\<lparr>coherent := True\<rparr>] 1 sg0 1 DMA_TO_DEVICE 2 1 init_state)) 1 2 p) \<and>
   unmap_calls (unmap_n 2 1 sg0 1 DMA_TO_DEVICE 2
                  (map_n 1 [ext_ok, ext_ok\<lparr>coherent := True\<rparr>] 1 sg0 1 DMA_TO_DEVICE 2 1 init_state))
     = 1"
proof -
  let ?exts = "[ext_ok, ext_ok\<lparr>coherent := True\<rparr>]"
  have h1: "?exts \<noteq> []" by simp
  have h2: "\<forall>p. \<not> record_for init_state 1 2 p" by (simp add: record_for_def init_state_def)
  have h3: "prim_ret (hd ?exts) \<noteq> 0" by (simp add: ext_ok_def)
  have h4: "length ?exts + 1 < (2::nat) ^ 31" by simp
  have n0: "ucast ((0 :: 64 word) AND 2048) = (0 :: 32 word)" by simp
  have n1: "ucast ((1 :: 64 word) AND 1) = (1 :: 32 word)" by simp
  have k: "kmalloc_ptr (hd ?exts) = 7" by (simp add: ext_ok_def)
  have u0: "unmap_calls init_state = 0" by (simp add: unmap_calls_def init_state_def)
  note lazy = map_n_unmap_n_balance [OF h1 h2 h3 h4, where attrs = 0 and flag = 2048 and usg = sg0
      and unents = 1 and udir = DMA_TO_DEVICE and sg = sg0 and nents = 1 and dir = DMA_TO_DEVICE]
  note eager = map_n_unmap_n_balance [OF h1 h2 h3 h4, where attrs = 1 and flag = 1 and usg = sg0
      and unents = 1 and udir = DMA_TO_DEVICE and sg = sg0 and nents = 1 and dir = DMA_TO_DEVICE]
  from lazy n0 have a:
    "record_for (unmap_n 2 1 sg0 1 DMA_TO_DEVICE 2
                 (map_n 2048 ?exts 1 sg0 1 DMA_TO_DEVICE 2 0 init_state)) 1 2 7"
    "map_option map_refcount
       (maps (unmap_n 2 1 sg0 1 DMA_TO_DEVICE 2
              (map_n 2048 ?exts 1 sg0 1 DMA_TO_DEVICE 2 0 init_state)) 7) = Some 1"
    "unmap_calls (unmap_n 2 1 sg0 1 DMA_TO_DEVICE 2
                  (map_n 2048 ?exts 1 sg0 1 DMA_TO_DEVICE 2 0 init_state)) = 0"
    unfolding k u0 by (simp_all add: numeral_2_eq_2)
  from eager n1 have b:
    "maps (unmap_n 2 1 sg0 1 DMA_TO_DEVICE 2
           (map_n 1 ?exts 1 sg0 1 DMA_TO_DEVICE 2 1 init_state)) 7 = None"
    "\<forall>p. \<not> record_for (unmap_n 2 1 sg0 1 DMA_TO_DEVICE 2
           (map_n 1 ?exts 1 sg0 1 DMA_TO_DEVICE 2 1 init_state)) 1 2 p"
    "unmap_calls (unmap_n 2 1 sg0 1 DMA_TO_DEVICE 2
                  (map_n 1 ?exts 1 sg0 1 DMA_TO_DEVICE 2 1 init_state)) = 1"
    unfolding k u0 by (simp_all add: numeral_2_eq_2)
  from h1 h2 h3 h4 n0 n1 a b show ?thesis by blast
qed

text \<open>
  C2 as stated fails for a lazy mapping already at \<open>N = 1\<close>: after one map with \<open>attrs = 0\<close>
  and one unmap, record 7 is on both lists with refcount 1 and \<open>dma_unmap_sg\<close> has not been
  called.
\<close>

theorem lazy_map_unmap_keeps_record:
  "record_for (unmap_n 1 1 sg0 1 DMA_TO_DEVICE 2
                 (map_n 2048 [ext_ok] 1 sg0 1 DMA_TO_DEVICE 2 0 init_state)) 1 2 7 \<and>
   7 \<in> set (iommu_map_list (unmap_n 1 1 sg0 1 DMA_TO_DEVICE 2
                 (map_n 2048 [ext_ok] 1 sg0 1 DMA_TO_DEVICE 2 0 init_state)) 1) \<and>
   map_option map_refcount
     (maps (unmap_n 1 1 sg0 1 DMA_TO_DEVICE 2
              (map_n 2048 [ext_ok] 1 sg0 1 DMA_TO_DEVICE 2 0 init_state)) 7) = Some 1 \<and>
   unmap_calls (unmap_n 1 1 sg0 1 DMA_TO_DEVICE 2
                  (map_n 2048 [ext_ok] 1 sg0 1 DMA_TO_DEVICE 2 0 init_state)) = 0"
proof -
  have m: "map_n 2048 [ext_ok] 1 sg0 1 DMA_TO_DEVICE 2 0 init_state = s_one"
    by (simp add: map_n_def s_one_def)
  have l: "msm_iommu_map_lookup s_one 2 1 = Some 7"
    by (simp add: msm_iommu_map_lookup_def s_one_eq)
  have m7: "maps s_one 7 = Some \<lparr>map_dev = 1, map_data = 2,
                             map_sg = \<lparr>dma_address = 4096, dma_length = 512\<rparr>,
                             map_dir = DMA_TO_DEVICE, map_nents = 1, map_refcount = 2\<rparr>"
    by (simp add: s_one_eq)
  have "msm_dma_unmap_sg 1 sg0 1 DMA_TO_DEVICE 2 s_one
             = s_one\<lparr>maps := (maps s_one)(7 \<mapsto> \<lparr>map_dev = 1, map_data = 2,
                             map_sg = \<lparr>dma_address = 4096, dma_length = 512\<rparr>,
                             map_dir = DMA_TO_DEVICE, map_nents = 1, map_refcount = 1\<rparr>)\<rparr>"
    unfolding msm_dma_unmap_sg_def l by (simp add: m7 Let_def)
  then have u: "unmap_n 1 1 sg0 1 DMA_TO_DEVICE 2 s_one
             = s_one\<lparr>maps := (maps s_one)(7 \<mapsto> \<lparr>map_dev = 1, map_data = 2,
                             map_sg = \<lparr>dma_address = 4096, dma_length = 512\<rparr>,
                             map_dir = DMA_TO_DEVICE, map_nents = 1, map_refcount = 1\<rparr>)\<rparr>"
    by (simp add: unmap_n_def)
  show ?thesis unfolding m u
    by (simp add: record_for_def unmap_calls_def s_one_eq)
qed

section \<open>What the caller gets back\<close>

lemma map_int_zero_iff_nothing_recorded:
  assumes "nents \<noteq> 0"
  shows "map_ret (msm_dma_map_sg_attrs flag ext dev sg nents dir dmabuf attrs s) = 0 \<longleftrightarrow>
         maps (map_state (msm_dma_map_sg_attrs flag ext dev sg nents dir dmabuf attrs s)) = maps s \<and>
         map_list (map_state (msm_dma_map_sg_attrs flag ext dev sg nents dir dmabuf attrs s))
           = map_list s \<and>
         iommu_map_list (map_state (msm_dma_map_sg_attrs flag ext dev sg nents dir dmabuf attrs s))
           = iommu_map_list s"
proof (cases "msm_iommu_map_lookup s dmabuf dev")
  case None
  show ?thesis
  proof (cases "prim_ret ext = 0")
    case True
    from map_miss_fail [OF None True] show ?thesis by (simp add: map_ret_def map_state_def)
  next
    case False
    have "(map_list s)(dmabuf := kmalloc_ptr ext # map_list s dmabuf) \<noteq> map_list s"
    proof
      assume "(map_list s)(dmabuf := kmalloc_ptr ext # map_list s dmabuf) = map_list s"
      then have "((map_list s)(dmabuf := kmalloc_ptr ext # map_list s dmabuf)) dmabuf
                   = map_list s dmabuf" by (rule arg_cong)
      then show False by simp
    qed
    with map_miss_ok [OF None False] False show ?thesis by (simp add: map_ret_def map_state_def)
  qed
next
  case (Some p)
  then obtain m where m: "maps s p = Some m" by (auto dest: lookup_SomeD)
  have "(maps s)(p \<mapsto> m\<lparr>map_refcount := map_refcount m + 1\<rparr>) \<noteq> maps s"
  proof
    assume "(maps s)(p \<mapsto> m\<lparr>map_refcount := map_refcount m + 1\<rparr>) = maps s"
    then have "((maps s)(p \<mapsto> m\<lparr>map_refcount := map_refcount m + 1\<rparr>)) p = maps s p"
      by (rule arg_cong)
    with m have "m\<lparr>map_refcount := map_refcount m + 1\<rparr> = m" by simp
    then have "map_refcount (m\<lparr>map_refcount := map_refcount m + 1\<rparr>) = map_refcount m"
      by (rule arg_cong)
    then show False by simp
  qed
  with map_hit [OF Some m] assms show ?thesis by (simp add: map_ret_def map_state_def)
qed

text \<open>
  C8, as amended.  What each exported function hands back.  \<open>msm_dma_map_sg_attrs\<close> returns an
  \<open>int\<close>; for a call with \<open>nents \<noteq> 0\<close> it is 0 exactly when the call recorded nothing: the
  records and both lists are as they were.  \<open>msm_dma_unmap_sg\<close> is declared \<open>void\<close> and hands
  back no value, whatever it did; \<open>msm_dma_unmap_all_for_dev\<close> and \<open>msm_dma_buf_freed\<close> are
  \<open>void\<close> as well and have no path that reports a failure.
\<close>

theorem exported_calls_return:
  "(nents \<noteq> 0 \<longrightarrow>
      (\<exists>v. fst (msm_dma_map_sg_attrs_call flag ext dev sg nents dir dmabuf attrs s) = Returns_int v \<and>
           (v = 0 \<longleftrightarrow>
              maps (snd (msm_dma_map_sg_attrs_call flag ext dev sg nents dir dmabuf attrs s)) = maps s \<and>
              map_list (snd (msm_dma_map_sg_attrs_call flag ext dev sg nents dir dmabuf attrs s))
                = map_list s \<and>
              iommu_map_list (snd (msm_dma_map_sg_attrs_call flag ext dev sg nents dir dmabuf attrs s))
                = iommu_map_list s))) \<and>
   fst (msm_dma_unmap_sg_call udev usg unents udir ubuf s) = Returns_void \<and>
   fst (msm_dma_unmap_all_for_dev_call adev s) = Returns_void \<and>
   fst (msm_dma_buf_freed_call locks data s) = Returns_void"
  using map_int_zero_iff_nothing_recorded [of nents flag ext dev sg dir dmabuf attrs s]
  by (simp add: msm_dma_map_sg_attrs_call_def msm_dma_unmap_sg_call_def
        msm_dma_unmap_all_for_dev_call_def msm_dma_buf_freed_call_def)

theorem exported_calls_return_witness:
  "(1 :: 32 word) \<noteq> 0 \<and>
   fst (msm_dma_map_sg_attrs_call 2048 ext_fail 3 sg0 1 DMA_TO_DEVICE 2 0 s_one) = Returns_int 0 \<and>
   maps (snd (msm_dma_map_sg_attrs_call 2048 ext_fail 3 sg0 1 DMA_TO_DEVICE 2 0 s_one)) = maps s_one \<and>
   map_list (snd (msm_dma_map_sg_attrs_call 2048 ext_fail 3 sg0 1 DMA_TO_DEVICE 2 0 s_one))
     = map_list s_one \<and>
   iommu_map_list (snd (msm_dma_map_sg_attrs_call 2048 ext_fail 3 sg0 1 DMA_TO_DEVICE 2 0 s_one))
     = iommu_map_list s_one \<and>
   fst (msm_dma_map_sg_attrs_call 2048 (ext_ok\<lparr>kmalloc_ptr := 9\<rparr>) 3 sg0 1 DMA_TO_DEVICE 2 0 s_one)
     = Returns_int 1 \<and>
   \<not> (maps (snd (msm_dma_map_sg_attrs_call 2048 (ext_ok\<lparr>kmalloc_ptr := 9\<rparr>) 3 sg0 1 DMA_TO_DEVICE 2 0 s_one))
        = maps s_one \<and>
      map_list (snd (msm_dma_map_sg_attrs_call 2048 (ext_ok\<lparr>kmalloc_ptr := 9\<rparr>) 3 sg0 1 DMA_TO_DEVICE 2 0 s_one))
        = map_list s_one \<and>
      iommu_map_list (snd (msm_dma_map_sg_attrs_call 2048 (ext_ok\<lparr>kmalloc_ptr := 9\<rparr>) 3 sg0 1 DMA_TO_DEVICE 2 0 s_one))
        = iommu_map_list s_one) \<and>
   fst (msm_dma_map_sg_attrs_call 2048 ext_ok 1 sg0 1 DMA_TO_DEVICE 2 0 s_one) = Returns_int 1 \<and>
   \<not> (maps (snd (msm_dma_map_sg_attrs_call 2048 ext_ok 1 sg0 1 DMA_TO_DEVICE 2 0 s_one)) = maps s_one \<and>
      map_list (snd (msm_dma_map_sg_attrs_call 2048 ext_ok 1 sg0 1 DMA_TO_DEVICE 2 0 s_one))
        = map_list s_one \<and>
      iommu_map_list (snd (msm_dma_map_sg_attrs_call 2048 ext_ok 1 sg0 1 DMA_TO_DEVICE 2 0 s_one))
        = iommu_map_list s_one) \<and>
   fst (msm_dma_unmap_sg_call 3 sg0 1 DMA_TO_DEVICE 2 s_one) = Returns_void"
proof -
  have n: "(1 :: 32 word) \<noteq> 0" by simp
  have l1: "msm_iommu_map_lookup s_one 2 1 = Some 7"
    by (simp add: msm_iommu_map_lookup_def s_one_eq)
  have m7: "maps s_one 7 = Some \<lparr>map_dev = 1, map_data = 2,
                             map_sg = \<lparr>dma_address = 4096, dma_length = 512\<rparr>,
                             map_dir = DMA_TO_DEVICE, map_nents = 1, map_refcount = 2\<rparr>"
    by (simp add: s_one_eq)
  have rh: "fst (msm_dma_map_sg_attrs_call 2048 ext_ok 1 sg0 1 DMA_TO_DEVICE 2 0 s_one) = Returns_int 1"
    unfolding msm_dma_map_sg_attrs_call_def map_hit [OF l1 m7] by (simp add: map_ret_def)
  note again = exported_calls_return [where nents = 1 and flag = 2048 and ext = ext_ok and dev = 1
      and sg = sg0 and dir = DMA_TO_DEVICE and dmabuf = 2 and attrs = 0 and s = s_one]
  from again n rh have c:
    "\<not> (maps (snd (msm_dma_map_sg_attrs_call 2048 ext_ok 1 sg0 1 DMA_TO_DEVICE 2 0 s_one)) = maps s_one \<and>
      map_list (snd (msm_dma_map_sg_attrs_call 2048 ext_ok 1 sg0 1 DMA_TO_DEVICE 2 0 s_one))
        = map_list s_one \<and>
      iommu_map_list (snd (msm_dma_map_sg_attrs_call 2048 ext_ok 1 sg0 1 DMA_TO_DEVICE 2 0 s_one))
        = iommu_map_list s_one)"
    by auto
  have miss: "msm_iommu_map_lookup s_one 2 3 = None"
    by (simp add: lookup_None_iff s_one_no_record_dev3)
  have f: "prim_ret ext_fail = 0" by (simp add: ext_fail_def)
  have k: "prim_ret (ext_ok\<lparr>kmalloc_ptr := 9\<rparr>) = 1" by (simp add: ext_ok_def)
  have rf: "fst (msm_dma_map_sg_attrs_call 2048 ext_fail 3 sg0 1 DMA_TO_DEVICE 2 0 s_one) = Returns_int 0"
    unfolding msm_dma_map_sg_attrs_call_def map_miss_fail [OF miss f] by (simp add: map_ret_def)
  have rk: "fst (msm_dma_map_sg_attrs_call 2048 (ext_ok\<lparr>kmalloc_ptr := 9\<rparr>) 3 sg0 1 DMA_TO_DEVICE 2 0 s_one)
              = Returns_int 1"
    unfolding msm_dma_map_sg_attrs_call_def
    by (simp add: map_miss_ok [OF miss] k map_ret_def)
  note failing = exported_calls_return [where nents = 1 and flag = 2048 and ext = ext_fail and dev = 3
      and sg = sg0 and dir = DMA_TO_DEVICE and dmabuf = 2 and attrs = 0 and s = s_one
      and udev = 3 and usg = sg0 and unents = 1 and udir = DMA_TO_DEVICE and ubuf = 2]
  note adding = exported_calls_return [where nents = 1 and flag = 2048
      and ext = "ext_ok\<lparr>kmalloc_ptr := 9\<rparr>" and dev = 3
      and sg = sg0 and dir = DMA_TO_DEVICE and dmabuf = 2 and attrs = 0 and s = s_one]
  from failing n rf have a:
    "maps (snd (msm_dma_map_sg_attrs_call 2048 ext_fail 3 sg0 1 DMA_TO_DEVICE 2 0 s_one)) = maps s_one"
    "map_list (snd (msm_dma_map_sg_attrs_call 2048 ext_fail 3 sg0 1 DMA_TO_DEVICE 2 0 s_one))
       = map_list s_one"
    "iommu_map_list (snd (msm_dma_map_sg_attrs_call 2048 ext_fail 3 sg0 1 DMA_TO_DEVICE 2 0 s_one))
       = iommu_map_list s_one"
    "fst (msm_dma_unmap_sg_call 3 sg0 1 DMA_TO_DEVICE 2 s_one) = Returns_void"
    by auto
  from adding n rk have b:
    "\<not> (maps (snd (msm_dma_map_sg_attrs_call 2048 (ext_ok\<lparr>kmalloc_ptr := 9\<rparr>) 3 sg0 1 DMA_TO_DEVICE 2 0 s_one))
        = maps s_one \<and>
      map_list (snd (msm_dma_map_sg_attrs_call 2048 (ext_ok\<lparr>kmalloc_ptr := 9\<rparr>) 3 sg0 1 DMA_TO_DEVICE 2 0 s_one))
        = map_list s_one \<and>
      iommu_map_list (snd (msm_dma_map_sg_attrs_call 2048 (ext_ok\<lparr>kmalloc_ptr := 9\<rparr>) 3 sg0 1 DMA_TO_DEVICE 2 0 s_one))
        = iommu_map_list s_one)"
    by auto
  from n rf rk rh a b c show ?thesis by blast
qed

text \<open>
  C8 as stated has \<open>msm_dma_unmap_sg\<close> return a tagged result.  The call for device 1 drops a
  reference of record 7 (2 to 1), the call for device 3 finds no record and changes nothing;
  both hand back the same thing, and it is no value.
\<close>

theorem unmap_returns_void:
  "\<not> is_tagged_result (fst (msm_dma_unmap_sg_call 1 sg0 1 DMA_TO_DEVICE 2 s_one)) \<and>
   map_option map_refcount (maps s_one 7) = Some 2 \<and>
   map_option map_refcount (maps (snd (msm_dma_unmap_sg_call 1 sg0 1 DMA_TO_DEVICE 2 s_one)) 7)
     = Some 1 \<and>
   fst (msm_dma_unmap_sg_call 1 sg0 1 DMA_TO_DEVICE 2 s_one)
     = fst (msm_dma_unmap_sg_call 3 sg0 1 DMA_TO_DEVICE 2 s_one) \<and>
   snd (msm_dma_unmap_sg_call 3 sg0 1 DMA_TO_DEVICE 2 s_one) = s_one"
proof -
  have l: "msm_iommu_map_lookup s_one 2 1 = Some 7"
    by (simp add: msm_iommu_map_lookup_def s_one_eq)
  have m7: "maps s_one 7 = Some \<lparr>map_dev = 1, map_data = 2,
                             map_sg = \<lparr>dma_address = 4096, dma_length = 512\<rparr>,
                             map_dir = DMA_TO_DEVICE, map_nents = 1, map_refcount = 2\<rparr>"
    by (simp add: s_one_eq)
  have u1: "msm_dma_unmap_sg 1 sg0 1 DMA_TO_DEVICE 2 s_one
             = s_one\<lparr>maps := (maps s_one)(7 \<mapsto> \<lparr>map_dev = 1, map_data = 2,
                             map_sg = \<lparr>dma_address = 4096, dma_length = 512\<rparr>,
                             map_dir = DMA_TO_DEVICE, map_nents = 1, map_refcount = 1\<rparr>)\<rparr>"
    unfolding msm_dma_unmap_sg_def l by (simp add: m7 Let_def)
  have miss: "msm_iommu_map_lookup s_one 2 3 = None"
    by (simp add: lookup_None_iff s_one_no_record_dev3)
  have u3: "msm_dma_unmap_sg 3 sg0 1 DMA_TO_DEVICE 2 s_one = s_one"
    unfolding msm_dma_unmap_sg_def miss by simp
  show ?thesis
    unfolding msm_dma_unmap_sg_call_def u1 u3 by (simp add: m7)
qed

section \<open>The kref-based map path\<close>

text \<open>
  What \<open>__msm_dma_map_sg\<close> does where the list-based function differs: on a hit it compares
  the request with the cached map and rejects a difference with \<open>-EINVAL\<close>; a new map starts
  at 2 or 1 whatever the bit of the flag is; and it can fail with \<open>-ENOMEM\<close> after the
  primitive has succeeded.  \<open>msm_iommu_meta_destroy\<close> is the one place that warns.
\<close>

lemma kref_lookup_get_meta:
  "iommu_root s b = Some meta \<Longrightarrow>
   iommu_root (kref_get_meta b s) b = Some (meta\<lparr>meta_ref := meta_ref meta + 1\<rparr>) \<and>
   kref_maps (kref_get_meta b s) = kref_maps s \<and>
   kref_trace (kref_get_meta b s) = kref_trace s"
  by (simp add: kref_get_meta_def)

lemma msm_iommu_lookup_cong:
  "kref_maps s' = kref_maps s \<Longrightarrow> iommu_maps meta' = iommu_maps meta \<Longrightarrow>
   msm_iommu_lookup s' meta' dev = msm_iommu_lookup s meta dev"
  by (simp add: msm_iommu_lookup_def)

lemma kref_hit:
  assumes "iommu_root s dma_buf = Some meta" "msm_iommu_lookup s meta dev = Some p"
    "kref_maps s p = Some m"
  shows "msm_dma_map_sg_kref flag ext dev sg nents dir dma_buf attrs s =
     (if nents = k_nents m \<and> dir = k_dir m \<and> attrs = k_map_attrs m \<and> sg_phys sg = k_buf_start_addr m
      then (nents,
            sg\<lparr>dma_address := dma_address (k_sgl m), dma_length := dma_length (k_sgl m)\<rparr>,
            (kref_get_meta dma_buf s)
              \<lparr>kref_maps := (kref_maps s)(p \<mapsto> m\<lparr>k_ref := k_ref m + 1\<rparr>),
               kref_trace := kref_trace s @ (if k_coherent ext then [Dmb_ish] else [])\<rparr>)
      else (- EINVAL, sg,
            (kref_get_meta dma_buf s)\<lparr>kref_trace := kref_trace s @ [Dev_err_differs dev]\<rparr>))"
proof -
  let ?s1 = "kref_get_meta dma_buf s"
  let ?meta1 = "meta\<lparr>meta_ref := meta_ref meta + 1\<rparr>"
  from kref_lookup_get_meta [OF assms(1)] have
    r: "iommu_root ?s1 dma_buf = Some ?meta1" and k: "kref_maps ?s1 = kref_maps s"
    and t: "kref_trace ?s1 = kref_trace s" by simp_all
  have l: "msm_iommu_lookup ?s1 ?meta1 dev = Some p"
    using msm_iommu_lookup_cong [OF k, of ?meta1 meta dev] assms(2) by simp
  show ?thesis
    unfolding msm_dma_map_sg_kref_def msm_iommu_meta_lookup_def
    by (simp add: assms(1,3) r l k t Let_def)
qed

lemma kref_hit_mismatch:
  assumes "iommu_root s dma_buf = Some meta" "msm_iommu_lookup s meta dev = Some p"
    "kref_maps s p = Some m"
    and "nents \<noteq> k_nents m \<or> dir \<noteq> k_dir m \<or> attrs \<noteq> k_map_attrs m \<or> sg_phys sg \<noteq> k_buf_start_addr m"
  shows "fst (msm_dma_map_sg_kref flag ext dev sg nents dir dma_buf attrs s) = - EINVAL"
    and "kref_maps (snd (snd (msm_dma_map_sg_kref flag ext dev sg nents dir dma_buf attrs s)))
           = kref_maps s"
    and "kref_trace (snd (snd (msm_dma_map_sg_kref flag ext dev sg nents dir dma_buf attrs s)))
           = kref_trace s @ [Dev_err_differs dev]"
  using assms(4) by (auto simp: kref_hit [OF assms(1-3)] kref_get_meta_def assms(1))

lemma kref_hit_match:
  assumes "iommu_root s dma_buf = Some meta" "msm_iommu_lookup s meta dev = Some p"
    "kref_maps s p = Some m"
    and "nents = k_nents m" "dir = k_dir m" "attrs = k_map_attrs m" "sg_phys sg = k_buf_start_addr m"
  shows "fst (msm_dma_map_sg_kref flag ext dev sg nents dir dma_buf attrs s) = nents"
    and "kref_maps (snd (snd (msm_dma_map_sg_kref flag ext dev sg nents dir dma_buf attrs s))) p
           = Some (m\<lparr>k_ref := k_ref m + 1\<rparr>)"
  using assms(4-7) by (auto simp: kref_hit [OF assms(1-3)])

lemma kref_first_map:
  assumes "iommu_root s dma_buf = None" "k_meta_create_err ext = None" "k_kmalloc ext = Some p"
    "k_prim_ret ext \<noteq> 0" "k_sg_alloc_ok ext"
  shows "fst (msm_dma_map_sg_kref flag ext dev sg nents dir dma_buf attrs s) = k_prim_ret ext"
    and "map_option k_ref
           (kref_maps (snd (snd (msm_dma_map_sg_kref flag ext dev sg nents dir dma_buf attrs s))) p)
           = Some (if attrs AND flag = 0 then 2 else 1)"
    and "map_option iommu_maps
           (iommu_root (snd (snd (msm_dma_map_sg_kref flag ext dev sg nents dir dma_buf attrs s))) dma_buf)
           = Some [p]"
  using assms
  by (auto simp: msm_dma_map_sg_kref_def msm_iommu_meta_lookup_def msm_iommu_meta_create_def
        kref_get_meta_def msm_iommu_lookup_def msm_iommu_add_def clone_sgl_def Let_def)

lemma kref_clone_failure:
  assumes "iommu_root s dma_buf = None" "k_meta_create_err ext = None" "k_kmalloc ext = Some p"
    "k_prim_ret ext \<noteq> 0" "\<not> k_sg_alloc_ok ext"
  shows "fst (msm_dma_map_sg_kref flag ext dev sg nents dir dma_buf attrs s) = - ENOMEM"
  using assms
  by (auto simp: msm_dma_map_sg_kref_def msm_iommu_meta_lookup_def msm_iommu_meta_create_def
        kref_get_meta_def msm_iommu_lookup_def clone_sgl_def Let_def)

lemma meta_destroy_warns:
  "iommu_root s b = Some meta \<Longrightarrow>
   kref_trace (msm_iommu_meta_destroy b s)
     = kref_trace s @ (if iommu_maps meta \<noteq> [] then [Warn_outstanding b] else []) \<and>
   iommu_root (msm_iommu_meta_destroy b s) b = None \<and>
   kref_maps (msm_iommu_meta_destroy b s) = kref_maps s"
  by (simp add: msm_iommu_meta_destroy_def)

end
